theory Spec2Isabelle
  imports Complex_Main
begin

section \<open>Strings as the heuristics read them\<close>

text \<open>
  Addresses are modelled as \<^typ>\<open>string\<close>, one \<^typ>\<open>char\<close> per code unit; the
  development covers ASCII text, where \<open>toUpperCase\<close> maps \<open>a..z\<close> to \<open>A..Z\<close> and leaves
  every other character alone.
\<close>

definition isDigit :: "char \<Rightarrow> bool" where
  "isDigit c = (let n = (of_char c :: nat) in 48 \<le> n \<and> n \<le> 57)"

text \<open>The regular-expression class \<open>\w\<close>: letters, digits and the underscore.\<close>

definition isWordChar :: "char \<Rightarrow> bool" where
  "isWordChar c =
     (let n = (of_char c :: nat)
      in (48 \<le> n \<and> n \<le> 57) \<or> (65 \<le> n \<and> n \<le> 90) \<or> n = 95 \<or> (97 \<le> n \<and> n \<le> 122))"

definition toUpperCaseChar :: "char \<Rightarrow> char" where
  "toUpperCaseChar c =
     (let n = (of_char c :: nat) in if 97 \<le> n \<and> n \<le> 122 then char_of (n - 32) else c)"

definition toUpperCase :: "string \<Rightarrow> string" where
  "toUpperCase s = map toUpperCaseChar s"

text \<open>\<open>s.includes(t)\<close> on strings: \<open>t\<close> occurs in \<open>s\<close> as a contiguous substring.\<close>

fun str_includes :: "string \<Rightarrow> string \<Rightarrow> bool" where
  "str_includes [] t = (t = [])"
| "str_includes (c # cs) t = (take (length t) (c # cs) = t \<or> str_includes cs t)"

text \<open>
  The assertion \<open>\b\<close> holds between two neighbouring positions when exactly one of them
  is a word character; the positions before the first and after the last character count
  as non-word.
\<close>

definition isWordAt :: "char option \<Rightarrow> bool" where
  "isWordAt c = (case c of None \<Rightarrow> False | Some x \<Rightarrow> isWordChar x)"

definition wordBoundary :: "char option \<Rightarrow> char option \<Rightarrow> bool" where
  "wordBoundary p n = (isWordAt p \<noteq> isWordAt n)"

definition headOpt :: "string \<Rightarrow> char option" where
  "headOpt s = (case s of [] \<Rightarrow> None | c # _ \<Rightarrow> Some c)"

text \<open>
  \<open>pattern.test(s)\<close> for an unanchored pattern: the pattern is tried at every position of
  \<open>s\<close>, left to right. The matcher \<open>m\<close> receives the character before the position and
  the rest of the string from the position on.
\<close>

fun regexTest :: "(char option \<Rightarrow> string \<Rightarrow> bool) \<Rightarrow> char option \<Rightarrow> string \<Rightarrow> bool" where
  "regexTest m prev [] = m prev []"
| "regexTest m prev (c # cs) = (m prev (c # cs) \<or> regexTest m (Some c) cs)"

section \<open>The Census provider's country heuristic\<close>

definition usStates :: "string list" where
  "usStates =
    [''AL'', ''AK'', ''AZ'', ''AR'', ''CA'', ''CO'', ''CT'', ''DE'', ''FL'', ''GA'',
     ''HI'', ''ID'', ''IL'', ''IN'', ''IA'', ''KS'', ''KY'', ''LA'', ''ME'', ''MD'',
     ''MA'', ''MI'', ''MN'', ''MS'', ''MO'', ''MT'', ''NE'', ''NV'', ''NH'', ''NJ'',
     ''NM'', ''NY'', ''NC'', ''ND'', ''OH'', ''OK'', ''OR'', ''PA'', ''RI'', ''SC'',
     ''SD'', ''TN'', ''TX'', ''UT'', ''VT'', ''VA'', ''WA'', ''WV'', ''WI'', ''WY'',
     ''DC'', ''PR'']"

text \<open>
  \<open>\b(AL|AK|...)\b\<close> at one position: a boundary, one of the state codes, a boundary.
\<close>

definition statePatternAt :: "char option \<Rightarrow> string \<Rightarrow> bool" where
  "statePatternAt prev s =
     (wordBoundary prev (headOpt s) \<and>
      list_ex (\<lambda>st. take (length st) s = st \<and>
                 wordBoundary (Some (last st)) (headOpt (drop (length st) s))) usStates)"

text \<open>
  \<open>\b\d{5}(-\d{4})?\b\<close> at one position: a boundary, five digits, and then either the
  optional group \<open>-dddd\<close> followed by a boundary, or a boundary right after the five
  digits (the matcher backtracks out of the optional group).
\<close>

definition zipPatternAt :: "char option \<Rightarrow> string \<Rightarrow> bool" where
  "zipPatternAt prev s =
     (wordBoundary prev (headOpt s) \<and> 5 \<le> length s \<and> list_all isDigit (take 5 s) \<and>
      ((10 \<le> length s \<and> s ! 5 = CHR ''-'' \<and> list_all isDigit (take 4 (drop 6 s)) \<and>
        wordBoundary (Some (s ! 9)) (headOpt (drop 10 s)))
       \<or> wordBoundary (Some (s ! 4)) (headOpt (drop 5 s))))"

definition usIndicators :: "string list" where
  "usIndicators =
    [''USA'', ''US'', ''UNITED STATES'',
     ''STREET'', ''AVENUE'', ''BOULEVARD'', ''ROAD'', ''LANE'', ''DRIVE'',
     ''ST'', ''AVE'', ''BLVD'', ''RD'', ''LN'', ''DR'']"

definition hasUSIndicator :: "string \<Rightarrow> bool" where
  "hasUSIndicator addressUpper = list_ex (\<lambda>indicator. str_includes addressUpper indicator) usIndicators"

definition hasNonUSCountry :: "string \<Rightarrow> bool" where
  "hasNonUSCountry addressUpper =
     (str_includes addressUpper ''CANADA'' \<or> str_includes addressUpper ''MEXICO'' \<or>
      str_includes addressUpper ''UK'' \<or> str_includes addressUpper ''ENGLAND'' \<or>
      str_includes addressUpper ''FRANCE'' \<or> str_includes addressUpper ''GERMANY'')"

text \<open>
  \<open>CensusProvider.isUSAddress\<close>. The state pattern is tested on the uppercased address,
  the zip pattern on the address as given.
\<close>

definition isUSAddress :: "string \<Rightarrow> bool" where
  "isUSAddress address =
     (let addressUpper = toUpperCase address in
      if regexTest statePatternAt None addressUpper then True
      else if regexTest zipPatternAt None address then True
      else if hasUSIndicator addressUpper then True
      else if hasNonUSCountry addressUpper then False
      else True)"

section \<open>Geocoding providers\<close>

text \<open>
  An awaited call either returns a value or throws. Every call is paired with the list of
  requests it sent to its upstream service (the address of each request), so that which
  upstream was contacted is part of what a call returns.
\<close>

datatype 'a outcome = Returned 'a | Threw

record api_error =
  code :: string
  message :: string

text \<open>
  \<open>GeocodeResponse\<close> and \<open>ReviewResponse\<close> share the fields \<open>success\<close>, \<open>provider\<close>,
  \<open>results\<close> and \<open>error\<close>; \<open>'r\<close> is the type of one result.
\<close>

record 'r response =
  success :: bool
  provider :: string
  results :: "'r list"
  error :: "api_error option"

text \<open>
  A geocoding adapter as the route uses it: its name and its two calls. The advisory rate
  limit is never read by the route.
\<close>

record 'r GeocodingProvider =
  name :: string
  geocode :: "string \<Rightarrow> 'r response outcome \<times> string list"
  isAvailable :: "bool outcome \<times> string list"

text \<open>
  What one exchange with the Census geocoder comes to inside \<open>CensusProvider.geocode\<close>:
  an exception (network failure, a status that is not ok, a body that does not parse)
  with its message, or the address matches already transformed to results.
\<close>

datatype 'r census_reply = CensusThrows string | CensusMatches "'r list"

definition census_geocode :: "(string \<Rightarrow> 'r census_reply) \<Rightarrow> string \<Rightarrow> 'r response \<times> string list" where
  "census_geocode fetch address =
     (if \<not> isUSAddress address then
        (\<lparr>success = False, provider = ''census'', results = [],
          error = Some \<lparr>code = ''NON_US_ADDRESS'',
                         message = ''Census geocoder only supports US addresses''\<rparr>\<rparr>, [])
      else
        (case fetch address of
           CensusThrows msg \<Rightarrow>
             (\<lparr>success = False, provider = ''census'', results = [],
               error = Some \<lparr>code = ''CENSUS_ERROR'',
                              message = (if msg = [] then ''Unknown error occurred'' else msg)\<rparr>\<rparr>,
              [address])
         | CensusMatches rs \<Rightarrow>
             (\<lparr>success = True, provider = ''census'', results = rs, error = None\<rparr>, [address])))"

text \<open>
  An exchange with the Google geocoder: an exception (network failure or a status other
  than \<open>OK\<close>) with the error code and message the handler derives from it, or the
  transformed results.
\<close>

datatype 'r google_reply = GoogleThrows string string | GoogleOK "'r list"

definition google_geocode :: "(string \<Rightarrow> 'r google_reply) \<Rightarrow> string \<Rightarrow> 'r response \<times> string list" where
  "google_geocode fetch address =
     (case fetch address of
        GoogleThrows c msg \<Rightarrow>
          (\<lparr>success = False, provider = ''google'', results = [],
            error = Some \<lparr>code = (if c = [] then ''UNKNOWN'' else c),
                           message = (if msg = [] then ''Unknown error occurred'' else msg)\<rparr>\<rparr>,
           [address])
      | GoogleOK rs \<Rightarrow>
          (\<lparr>success = True, provider = ''google'', results = rs, error = None\<rparr>, [address]))"

text \<open>
  The upstream services during one request: the reply to each adapter's availability
  probe and the reply to a geocoding request for an address. The request options are
  ignored by the Census adapter and forwarded unchanged by the Google adapter; they are
  part of what the Google upstream answers.
\<close>

record 'r upstream =
  census_probe :: "'r census_reply"
  census_fetch :: "string \<Rightarrow> 'r census_reply"
  google_probe :: "'r google_reply"
  google_fetch :: "string \<Rightarrow> 'r google_reply"

definition CensusProvider :: "'r upstream \<Rightarrow> 'r GeocodingProvider" where
  "CensusProvider u =
     \<lparr>name = ''census'',
      geocode = (\<lambda>address. case census_geocode (census_fetch u) address of
                              (r, reqs) \<Rightarrow> (Returned r, reqs)),
      isAvailable =
        (case census_geocode (\<lambda>_. census_probe u)
                ''1600 Pennsylvania Avenue NW, Washington, DC 20500'' of
           (r, reqs) \<Rightarrow> (Returned (success r \<and> 0 < length (results r)), reqs))\<rparr>"

definition GoogleProvider :: "'r upstream \<Rightarrow> 'r GeocodingProvider" where
  "GoogleProvider u =
     \<lparr>name = ''google'',
      geocode = (\<lambda>address. case google_geocode (google_fetch u) address of
                              (r, reqs) \<Rightarrow> (Returned r, reqs)),
      isAvailable =
        (case google_geocode (\<lambda>_. google_probe u)
                ''1600 Amphitheatre Parkway, Mountain View, CA'' of
           (r, reqs) \<Rightarrow> (Returned (success r), reqs))\<rparr>"

text \<open>The registry of the geocode route: Census first, then Google.\<close>

definition providers :: "'r upstream \<Rightarrow> 'r GeocodingProvider list" where
  "providers u = [CensusProvider u, GoogleProvider u]"

section \<open>The geocode route\<close>

text \<open>
  The handler's answer is either a \<open>GeocodeResponse\<close> sent as JSON or an error object
  with an HTTP status. The call list records every adapter call the handler made, in order,
  with the upstream requests the call sent.
\<close>

datatype 'r http = Json "'r response" | ErrorJson string nat

datatype call = IsAvailableCall string "string list" | GeocodeCall string string "string list"

fun callee :: "call \<Rightarrow> string" where
  "callee (IsAvailableCall n _) = n"
| "callee (GeocodeCall n _ _) = n"

definition providerError :: "'r GeocodingProvider \<Rightarrow> api_error" where
  "providerError p =
     \<lparr>code = ''PROVIDER_ERROR'', message = ''Provider '' @ name p @ '' encountered an error''\<rparr>"

definition allProvidersFailed :: api_error where
  "allProvidersFailed =
     \<lparr>code = ''ALL_PROVIDERS_FAILED'',
      message = ''All geocoding providers failed or returned no results''\<rparr>"

text \<open>
  The fallback loop of \<open>POST\<close>, from the provider the loop is at, with the value of
  \<open>lastError\<close> (\<open>None\<close> for \<open>null\<close> or \<open>undefined\<close>) and the calls made so far.
\<close>

fun tryProviders ::
  "'r GeocodingProvider list \<Rightarrow> string \<Rightarrow> api_error option \<Rightarrow> call list \<Rightarrow> 'r http \<times> call list" where
  "tryProviders [] address lastError calls =
     (Json \<lparr>success = False, provider = ''multiple'', results = [],
            error = Some (case lastError of None \<Rightarrow> allProvidersFailed | Some e \<Rightarrow> e)\<rparr>, calls)"
| "tryProviders (p # ps) address lastError calls =
     (case isAvailable p of
        (Threw, reqs) \<Rightarrow>
          tryProviders ps address (Some (providerError p)) (calls @ [IsAvailableCall (name p) reqs])
      | (Returned False, reqs) \<Rightarrow>
          tryProviders ps address lastError (calls @ [IsAvailableCall (name p) reqs])
      | (Returned True, reqs) \<Rightarrow>
          (case geocode p address of
             (Threw, greqs) \<Rightarrow>
               tryProviders ps address (Some (providerError p))
                 (calls @ [IsAvailableCall (name p) reqs, GeocodeCall (name p) address greqs])
           | (Returned response, greqs) \<Rightarrow>
               if success response \<and> 0 < length (results response) then
                 (Json response,
                  calls @ [IsAvailableCall (name p) reqs, GeocodeCall (name p) address greqs])
               else if success response \<and> length (results response) = 0 then
                 tryProviders ps address lastError
                   (calls @ [IsAvailableCall (name p) reqs, GeocodeCall (name p) address greqs])
               else
                 tryProviders ps address (error response)
                   (calls @ [IsAvailableCall (name p) reqs, GeocodeCall (name p) address greqs])))"

text \<open>
  \<open>POST\<close> of the geocode route, after the API key and the request body have been
  validated: \<open>address\<close> is the body's address, \<open>preferredProvider\<close> its optional
  \<open>provider\<close> field. The empty string is falsy, so it selects the fallback loop. An
  exception that escapes an adapter on the explicit path reaches the handler's outer
  \<open>catch\<close>.
\<close>

definition POST :: "'r GeocodingProvider list \<Rightarrow> string \<Rightarrow> string option \<Rightarrow> 'r http \<times> call list" where
  "POST ps address preferredProvider =
     (case preferredProvider of
        Some n \<Rightarrow>
          if n \<noteq> [] then
            (case find (\<lambda>p. name p = n) ps of
               None \<Rightarrow> (ErrorJson ''Provider not found or not available'' 400, [])
             | Some p \<Rightarrow>
                 (case isAvailable p of
                    (Threw, reqs) \<Rightarrow>
                      (ErrorJson ''Internal server error'' 500, [IsAvailableCall (name p) reqs])
                  | (Returned False, reqs) \<Rightarrow>
                      (ErrorJson ''Selected provider is not available'' 503,
                       [IsAvailableCall (name p) reqs])
                  | (Returned True, reqs) \<Rightarrow>
                      (case geocode p address of
                         (Threw, greqs) \<Rightarrow>
                           (ErrorJson ''Internal server error'' 500,
                            [IsAvailableCall (name p) reqs, GeocodeCall (name p) address greqs])
                       | (Returned response, greqs) \<Rightarrow>
                           (Json response,
                            [IsAvailableCall (name p) reqs, GeocodeCall (name p) address greqs]))))
          else tryProviders ps address None []
      | None \<Rightarrow> tryProviders ps address None [])"

section \<open>The fallback loop, as the specification words it\<close>

text \<open>
  The notions the specification uses for the loop, defined from its wording and compared
  with \<open>tryProviders\<close> below. An adapter is accepted when its probe returns true and its
  outcome is successful with at least one result.
\<close>

definition accepted :: "'r GeocodingProvider \<Rightarrow> string \<Rightarrow> bool" where
  "accepted p address =
     (fst (isAvailable p) = Returned True \<and>
      (case fst (geocode p address) of
         Returned r \<Rightarrow> success r \<and> results r \<noteq> []
       | Threw \<Rightarrow> False))"

text \<open>
  The value of \<open>lastError\<close> after an adapter that was not accepted: unchanged when the
  adapter is unavailable or returned a successful empty outcome, the outcome's error after
  a failure, and the provider error when a call threw.
\<close>

definition recorded :: "'r GeocodingProvider \<Rightarrow> string \<Rightarrow> api_error option \<Rightarrow> api_error option" where
  "recorded p address lastError =
     (case fst (isAvailable p) of
        Threw \<Rightarrow> Some (providerError p)
      | Returned False \<Rightarrow> lastError
      | Returned True \<Rightarrow>
          (case fst (geocode p address) of
             Threw \<Rightarrow> Some (providerError p)
           | Returned r \<Rightarrow> if success r then lastError else error r))"

text \<open>The calls one adapter receives in the loop: the probe, then the geocoding if the probe passed.\<close>

definition callsOf :: "'r GeocodingProvider \<Rightarrow> string \<Rightarrow> call list" where
  "callsOf p address =
     IsAvailableCall (name p) (snd (isAvailable p)) #
     (if fst (isAvailable p) = Returned True
      then [GeocodeCall (name p) address (snd (geocode p address))] else [])"

text \<open>The synthetic outcome returned when no adapter was accepted.\<close>

definition exhausted :: "'r GeocodingProvider list \<Rightarrow> string \<Rightarrow> 'r response" where
  "exhausted ps address =
     \<lparr>success = False, provider = ''multiple'', results = [],
      error = Some (case fold (\<lambda>p le. recorded p address le) ps None of
                      None \<Rightarrow> allProvidersFailed | Some e \<Rightarrow> e)\<rparr>"

section \<open>Reviews, JSON values and page tokens\<close>

text \<open>
  The field \<open>text\<close> of a review is \<open>reviewText\<close> here and the fields of
  \<open>PlaceSummary\<close> carry the prefix \<open>summary\<close>, since the plain names are taken; the
  opaque \<open>raw\<close> payload of a review, which nothing reads, is left out.
\<close>

record Review =
  author :: string
  authorProfilePhoto :: "string option"
  rating :: int
  reviewText :: string
  time :: string
  relativeTime :: "string option"
  language :: "string option"

record PlaceSummary =
  summaryName :: string
  summaryRating :: rat
  summaryTotalReviews :: int
  summaryUrl :: "string option"

text \<open>
  Numbers are modelled as integers: page sizes, indices, ratings and the numbers inside a
  token are whole numbers small enough to be exact in the source's arithmetic.
\<close>

datatype json =
  JNull | JBool bool | JNum int | JStr string | JArr "json list" | JObj "(string \<times> json) list"

text \<open>
  A page token is a base64 string. Decoding it and parsing the text as JSON is library
  code; what the provider sees of a token string is whether that sequence throws or which
  JSON value it yields. A token built by serialising a value and encoding it is read back
  as that value, and a key whose value is \<open>undefined\<close> is left out by the serialiser. An
  absent or empty token string is \<open>None\<close>.
\<close>

datatype page_token = Unparsable | Parsed json

record Pagination =
  nextPageToken :: "json option"
  hasMoreReviews :: bool
  currentPage :: "int option"
  totalPages :: "int option"
  pageSize :: "int option"
  totalReviews :: "int option"

record ReviewResponse = "Review response" +
  summary :: "PlaceSummary option"
  pagination :: "Pagination option"

text \<open>
  Reading a property of a parsed value: \<open>null\<close> throws a type error, an object yields its
  own property or \<open>undefined\<close> (\<open>None\<close>), strings and arrays have a \<open>length\<close>, and any
  other read is \<open>undefined\<close>.
\<close>

fun js_prop :: "json \<Rightarrow> string \<Rightarrow> json option outcome" where
  "js_prop JNull k = Threw"
| "js_prop (JObj kvs) k = Returned (map_of kvs k)"
| "js_prop (JStr s) k = Returned (if k = ''length'' then Some (JNum (int (length s))) else None)"
| "js_prop (JArr xs) k = Returned (if k = ''length'' then Some (JNum (int (length xs))) else None)"
| "js_prop (JBool b) k = Returned None"
| "js_prop (JNum n) k = Returned None"

fun js_truthy :: "json \<Rightarrow> bool" where
  "js_truthy JNull = False"
| "js_truthy (JBool b) = b"
| "js_truthy (JNum n) = (n \<noteq> 0)"
| "js_truthy (JStr s) = (s \<noteq> [])"
| "js_truthy (JArr xs) = True"
| "js_truthy (JObj kvs) = True"

text \<open>\<open>v || d\<close> for a possibly undefined \<open>v\<close>.\<close>

definition js_or :: "json option \<Rightarrow> json \<Rightarrow> json" where
  "js_or v d = (case v of None \<Rightarrow> d | Some x \<Rightarrow> if js_truthy x then x else d)"

text \<open>
  What the engine decides and this development does not compute: the epoch milliseconds
  of a timestamp as they are serialised (a number, or \<open>null\<close> for an invalid date), the
  comparisons \<open>n < v\<close> and \<open>v > n\<close> when \<open>v\<close> is a string, an array or an object and has
  to be coerced to a number, and the message of a type error.
\<close>

record js_engine =
  dateGetTime :: "string \<Rightarrow> json"
  coerceLess :: "int \<Rightarrow> json \<Rightarrow> bool"
  coerceGreater :: "json \<Rightarrow> int \<Rightarrow> bool"
  typeErrorMessage :: string

text \<open>\<open>n < v\<close> and \<open>v > n\<close> for a number \<open>n\<close> and a JSON value \<open>v\<close>.\<close>

fun js_less :: "js_engine \<Rightarrow> int \<Rightarrow> json \<Rightarrow> bool" where
  "js_less eng n (JNum m) = (n < m)"
| "js_less eng n JNull = (n < 0)"
| "js_less eng n (JBool b) = (n < (if b then 1 else 0))"
| "js_less eng n v = coerceLess eng n v"

fun js_greater :: "js_engine \<Rightarrow> json option \<Rightarrow> int \<Rightarrow> bool" where
  "js_greater eng None n = False"
| "js_greater eng (Some (JNum m)) n = (m > n)"
| "js_greater eng (Some JNull) n = (0 > n)"
| "js_greater eng (Some (JBool b)) n = ((if b then 1 else 0) > n)"
| "js_greater eng (Some v) n = coerceGreater eng v n"

text \<open>
  A \<open>Set\<close> is the list of its elements in insertion order. Numbers, strings, booleans and
  \<open>null\<close> are equal by value; an array or object that came out of the parser is equal to
  no other element.
\<close>

fun isPrimitive :: "json \<Rightarrow> bool" where
  "isPrimitive (JArr xs) = False"
| "isPrimitive (JObj kvs) = False"
| "isPrimitive v = True"

definition setAdd :: "json list \<Rightarrow> json \<Rightarrow> json list" where
  "setAdd elems x = (if isPrimitive x \<and> x \<in> set elems then elems else elems @ [x])"

text \<open>\<open>new Set(v)\<close>: arrays and strings are iterable, anything else throws.\<close>

fun newSet :: "json \<Rightarrow> json list outcome" where
  "newSet (JArr xs) = Returned (foldl setAdd [] xs)"
| "newSet (JStr s) = Returned (foldl setAdd [] (map (\<lambda>c. JStr [c]) s))"
| "newSet v = Threw"

text \<open>\<open>v.includes(m)\<close> and \<open>v.push(m)\<close> for a string \<open>m\<close>; a value without the method throws.\<close>

fun js_includes :: "json \<Rightarrow> string \<Rightarrow> bool outcome" where
  "js_includes (JArr xs) m = Returned (JStr m \<in> set xs)"
| "js_includes (JStr s) m = Returned (str_includes s m)"
| "js_includes v m = Threw"

fun js_push :: "json \<Rightarrow> string \<Rightarrow> json outcome" where
  "js_push (JArr xs) m = Returned (JArr (xs @ [JStr m]))"
| "js_push v m = Threw"

text \<open>\<open>xs.slice(start, end)\<close> with integer arguments.\<close>

definition js_slice :: "'a list \<Rightarrow> int \<Rightarrow> int \<Rightarrow> 'a list" where
  "js_slice xs start fin =
     (let len = int (length xs);
          k = (if start < 0 then max (len + start) 0 else min start len);
          final = (if fin < 0 then max (len + fin) 0 else min fin len)
      in take (nat (final - k)) (drop (nat k) xs))"

section \<open>The Google reviews provider\<close>

text \<open>The identity key of a review: \<open>`${review.author}_${review.time}`\<close>.\<close>

definition reviewKey :: "Review \<Rightarrow> string" where
  "reviewKey review = author review @ ''_'' @ time review"

text \<open>
  \<open>deduplicateReviews\<close>: the filter callback run over the list, with the set \<open>seen\<close> it
  closes over.
\<close>

fun dedupFilter :: "string set \<Rightarrow> Review list \<Rightarrow> Review list" where
  "dedupFilter seen [] = []"
| "dedupFilter seen (review # reviews) =
     (let key = reviewKey review in
      if key \<in> seen then dedupFilter seen reviews
      else review # dedupFilter (insert key seen) reviews)"

definition deduplicateReviews :: "Review list \<Rightarrow> Review list" where
  "deduplicateReviews reviews = dedupFilter {} reviews"

text \<open>
  The two upstream reads of the provider, as they come back from \<open>getPlaceDetails\<close> and
  \<open>fetchReviewsWithSort\<close>: both catch every exception and answer with a response whose
  result list is empty on failure.
\<close>

datatype details = DetailsOk PlaceSummary | DetailsFailed api_error

datatype sortFetch = FetchOk "Review list" | FetchFailed api_error

definition failureResponse :: "api_error \<Rightarrow> ReviewResponse" where
  "failureResponse e =
     \<lparr>success = False, provider = ''google'', results = [], error = Some e,
      summary = None, pagination = None\<rparr>"

definition fetchResults :: "sortFetch \<Rightarrow> Review list" where
  "fetchResults f = (case f of FetchOk rs \<Rightarrow> rs | FetchFailed e \<Rightarrow> [])"

text \<open>
  \<open>getReviewsForPlace\<close>: \<open>cached\<close> is the unexpired cache entry for the place and
  language, if there is one; \<open>fetch\<close> answers the three sort orders. The result is the
  review list and the cache entry afterwards.
\<close>

definition getReviewsForPlace ::
  "Review list option \<Rightarrow> (string \<Rightarrow> sortFetch) \<Rightarrow> int option \<Rightarrow> Review list \<times> Review list option" where
  "getReviewsForPlace cached fetch minRating =
     (let allReviews =
            (case cached of
               Some reviews \<Rightarrow> reviews
             | None \<Rightarrow>
                 deduplicateReviews
                   (fetchResults (fetch ''most_relevant'') @ fetchResults (fetch ''newest'') @
                    fetchResults (fetch ''highest_rating'')))
      in (case minRating of
            Some m \<Rightarrow> filter (\<lambda>review. rating review \<ge> m) allReviews
          | None \<Rightarrow> allReviews,
          Some allReviews))"

definition DEFAULT_PAGE_SIZE :: int where
  "DEFAULT_PAGE_SIZE = 6"

text \<open>\<open>options?.maxResults || this.DEFAULT_PAGE_SIZE\<close>.\<close>

definition pageSizeOf :: "int option \<Rightarrow> int" where
  "pageSizeOf maxResults =
     (case maxResults of None \<Rightarrow> DEFAULT_PAGE_SIZE
      | Some n \<Rightarrow> if n = 0 then DEFAULT_PAGE_SIZE else n)"

text \<open>
  The start index read from the page token in \<open>getReviews\<close>: the token's \<open>startIndex\<close>
  when it is a number and not negative, and 0 otherwise, also when parsing or the
  property read throws.
\<close>

definition startIndexOf :: "page_token option \<Rightarrow> int" where
  "startIndexOf pageToken =
     (case pageToken of
        None \<Rightarrow> 0
      | Some Unparsable \<Rightarrow> 0
      | Some (Parsed tokenData) \<Rightarrow>
          (case js_prop tokenData ''startIndex'' of
             Threw \<Rightarrow> 0
           | Returned (Some (JNum n)) \<Rightarrow> if n \<ge> 0 then n else 0
           | Returned _ \<Rightarrow> 0))"

text \<open>
  The object \<open>getReviews\<close> serialises into \<open>nextPageToken\<close>.
\<close>

definition offsetToken :: "int \<Rightarrow> string \<Rightarrow> int \<Rightarrow> int option \<Rightarrow> json" where
  "offsetToken endIndex placeId totalCount minRating =
     JObj ([(''startIndex'', JNum endIndex), (''placeId'', JStr placeId),
            (''totalReviews'', JNum totalCount)] @
           (case minRating of None \<Rightarrow> [] | Some m \<Rightarrow> [(''minimumRating'', JNum m)]))"

text \<open>
  \<open>getReviews\<close>: \<open>placeDetails\<close> is what \<open>getPlaceDetails\<close> answered and \<open>allReviews\<close>
  what \<open>getReviewsForPlace\<close> returned for the request's minimum rating.
\<close>

definition getReviews ::
  "details \<Rightarrow> Review list \<Rightarrow> string \<Rightarrow> int option \<Rightarrow> int option \<Rightarrow> page_token option \<Rightarrow> ReviewResponse" where
  "getReviews placeDetails allReviews placeId maxResults minRating pageToken =
     (case placeDetails of
        DetailsFailed e \<Rightarrow> failureResponse e
      | DetailsOk placeSummary \<Rightarrow>
          (let pgSize = pageSizeOf maxResults;
               startIndex = startIndexOf pageToken;
               endIndex = startIndex + pgSize;
               pageReviews = js_slice allReviews startIndex endIndex;
               hasMore = (endIndex < int (length allReviews));
               token =
                 (if hasMore
                  then Some (offsetToken endIndex placeId (int (length allReviews)) minRating)
                  else None)
           in \<lparr>success = True, provider = ''google'', results = pageReviews, error = None,
               summary = Some placeSummary,
               pagination =
                 Some \<lparr>nextPageToken = token, hasMoreReviews = hasMore,
                       currentPage = Some (startIndex div pgSize + 1),
                       totalPages = Some (- ((- int (length allReviews)) div pgSize)),
                       pageSize = Some pgSize,
                       totalReviews = Some (int (length allReviews))\<rparr>\<rparr>))"

text \<open>
  Following \<open>nextPageToken\<close> in standard mode over a fixed review list until
  \<open>hasMoreReviews\<close> is false: the pages served, or \<open>None\<close> when the fuel runs out first.
\<close>

fun followPages ::
  "nat \<Rightarrow> details \<Rightarrow> Review list \<Rightarrow> string \<Rightarrow> int option \<Rightarrow> int option \<Rightarrow> page_token option
     \<Rightarrow> Review list list option" where
  "followPages 0 placeDetails allReviews placeId maxResults minRating pageToken = None"
| "followPages (Suc fuel) placeDetails allReviews placeId maxResults minRating pageToken =
     (let response = getReviews placeDetails allReviews placeId maxResults minRating pageToken in
      case pagination response of
        None \<Rightarrow> Some [results response]
      | Some pg \<Rightarrow>
          if hasMoreReviews pg then
            (case followPages fuel placeDetails allReviews placeId maxResults minRating
                    (map_option Parsed (nextPageToken pg)) of
               None \<Rightarrow> None
             | Some pages \<Rightarrow> Some (results response # pages))
          else Some [results response])"

section \<open>Chunked pagination\<close>

text \<open>
  The continuation state \<open>tokenData\<close> of \<open>getReviewsChunked\<close>. The fields read from a
  token are whatever JSON values the token holds; \<open>reviewIds\<close> is a \<open>Set\<close>.
\<close>

record tokenData =
  sortMethod :: json
  fetchedMethods :: json
  reviewIds :: "json list"
  lastReviewTime :: json
  minimumRating :: "json option"

definition freshTokenData :: "int option \<Rightarrow> tokenData" where
  "freshTokenData minRating =
     \<lparr>sortMethod = JStr ''most_relevant'', fetchedMethods = JArr [], reviewIds = [],
      lastReviewTime = JNum 0, minimumRating = map_option JNum minRating\<rparr>"

definition andThen :: "'a outcome \<Rightarrow> ('a \<Rightarrow> 'b outcome) \<Rightarrow> 'b outcome" where
  "andThen x f = (case x of Threw \<Rightarrow> Threw | Returned v \<Rightarrow> f v)"

text \<open>
  The token block of \<open>getReviewsChunked\<close>: the object literal is evaluated field by
  field inside \<open>try\<close>, and if anything throws the default state is kept.
\<close>

definition parseChunkToken :: "int option \<Rightarrow> page_token option \<Rightarrow> tokenData" where
  "parseChunkToken minRating pageToken =
     (case pageToken of
        None \<Rightarrow> freshTokenData minRating
      | Some Unparsable \<Rightarrow> freshTokenData minRating
      | Some (Parsed parsedToken) \<Rightarrow>
          (case
             andThen (js_prop parsedToken ''sortMethod'') (\<lambda>sm.
             andThen (js_prop parsedToken ''fetchedMethods'') (\<lambda>fm.
             andThen (js_prop parsedToken ''reviewIds'') (\<lambda>ids.
             andThen (newSet (js_or ids (JArr []))) (\<lambda>idSet.
             andThen (js_prop parsedToken ''lastReviewTime'') (\<lambda>lrt.
             andThen (js_prop parsedToken ''minimumRating'') (\<lambda>mr.
               Returned \<lparr>sortMethod = js_or sm (JStr ''most_relevant''),
                         fetchedMethods = js_or fm (JArr []),
                         reviewIds = idSet,
                         lastReviewTime = js_or lrt (JNum 0),
                         minimumRating = mr\<rparr>))))))
           of Threw \<Rightarrow> freshTokenData minRating
            | Returned td \<Rightarrow> td))"

definition allSortMethods :: "string list" where
  "allSortMethods = [''most_relevant'', ''newest'', ''highest_rating'']"

text \<open>\<open>allSortMethods.filter(method => !fetchedMethods.includes(method))\<close>.\<close>

fun filterNotIncluded :: "json \<Rightarrow> string list \<Rightarrow> string list outcome" where
  "filterNotIncluded fm [] = Returned []"
| "filterNotIncluded fm (m # ms) =
     andThen (js_includes fm m) (\<lambda>b.
     andThen (filterNotIncluded fm ms) (\<lambda>rest.
       Returned (if b then rest else m # rest)))"

definition nextSortMethodsOf :: "js_engine \<Rightarrow> json \<Rightarrow> string list outcome" where
  "nextSortMethodsOf eng fm =
     andThen (js_prop fm ''length'') (\<lambda>len.
       if js_greater eng len 0 then
         andThen (filterNotIncluded fm allSortMethods) (\<lambda>next.
           Returned (if length next = 0 then [''most_relevant''] else next))
       else Returned allSortMethods)"

text \<open>
  The loop over the fetched reviews: \<open>uniqueReviews\<close> and the set of review ids as they
  grow, stopping when the page is full.
\<close>

fun collectUnique ::
  "js_engine \<Rightarrow> int \<Rightarrow> json option \<Rightarrow> Review list \<Rightarrow> Review list \<Rightarrow> json list
     \<Rightarrow> Review list \<times> json list" where
  "collectUnique eng pgSize minR [] uniqueReviews ids = (uniqueReviews, ids)"
| "collectUnique eng pgSize minR (review # rest) uniqueReviews ids =
     (let reviewId = reviewKey review in
      if JStr reviewId \<in> set ids then collectUnique eng pgSize minR rest uniqueReviews ids
      else if (case minR of None \<Rightarrow> False | Some m \<Rightarrow> js_less eng (rating review) m)
        then collectUnique eng pgSize minR rest uniqueReviews ids
      else if int (length (uniqueReviews @ [review])) \<ge> pgSize
        then (uniqueReviews @ [review], setAdd ids (JStr reviewId))
      else collectUnique eng pgSize minR rest (uniqueReviews @ [review]) (setAdd ids (JStr reviewId)))"

text \<open>
  \<open>if (!fetchedMethods.includes(current)) fetchedMethods.push(current)\<close>: the value of
  \<open>fetchedMethods\<close> afterwards.
\<close>

definition markFetched :: "json \<Rightarrow> string \<Rightarrow> json outcome" where
  "markFetched fm current =
     andThen (js_includes fm current) (\<lambda>b. if b then Returned fm else js_push fm current)"

text \<open>The answer of the outer \<open>catch\<close> of \<open>getReviewsChunked\<close> to a type error.\<close>

definition caughtTypeError :: "js_engine \<Rightarrow> ReviewResponse" where
  "caughtTypeError eng =
     failureResponse
       \<lparr>code = ''UNKNOWN'',
        message = (if typeErrorMessage eng = [] then ''Unknown error occurred''
                   else typeErrorMessage eng)\<rparr>"

text \<open>
  The object \<open>getReviewsChunked\<close> serialises into \<open>nextPageToken\<close>.
\<close>

definition chunkToken ::
  "js_engine \<Rightarrow> string \<Rightarrow> json \<Rightarrow> json list \<Rightarrow> Review list \<Rightarrow> json option \<Rightarrow> json" where
  "chunkToken eng currentSortMethod fm ids uniqueReviews minR =
     JObj ([(''sortMethod'', JStr currentSortMethod),
            (''fetchedMethods'', fm),
            (''reviewIds'', JArr ids),
            (''lastReviewTime'',
               if length uniqueReviews > 0
               then dateGetTime eng (time (last uniqueReviews))
               else JNum 0)] @
           (case minR of None \<Rightarrow> [] | Some m \<Rightarrow> [(''minimumRating'', m)]))"

text \<open>
  \<open>getReviewsChunked\<close>: \<open>placeDetails\<close> is what \<open>getPlaceDetails\<close> answered and
  \<open>fetchReviewsWithSort\<close> what the upstream returns for a sort order during this call.
\<close>

definition getReviewsChunked ::
  "js_engine \<Rightarrow> details \<Rightarrow> (string \<Rightarrow> sortFetch) \<Rightarrow> int option \<Rightarrow> int option \<Rightarrow> page_token option
     \<Rightarrow> ReviewResponse" where
  "getReviewsChunked eng placeDetails fetchReviewsWithSort maxResults minRating pageToken =
     (case placeDetails of
        DetailsFailed e \<Rightarrow> failureResponse e
      | DetailsOk placeSummary \<Rightarrow>
          (let pgSize = pageSizeOf maxResults;
               td = parseChunkToken minRating pageToken
           in case nextSortMethodsOf eng (fetchedMethods td) of
                Threw \<Rightarrow> caughtTypeError eng
              | Returned nextSortMethods \<Rightarrow>
                  (let currentSortMethod = hd nextSortMethods in
                   case fetchReviewsWithSort currentSortMethod of
                     FetchFailed e \<Rightarrow> failureResponse e
                   | FetchOk fetched \<Rightarrow>
                       (case collectUnique eng pgSize (minimumRating td) fetched [] (reviewIds td) of
                          (uniqueReviews, ids) \<Rightarrow>
                            (case markFetched (fetchedMethods td) currentSortMethod of
                               Threw \<Rightarrow> caughtTypeError eng
                             | Returned fm \<Rightarrow>
                                 (let hasMore = (length nextSortMethods > 1 \<or>
                                                 length fetched > length uniqueReviews);
                                      token =
                                        (if hasMore
                                         then Some (chunkToken eng currentSortMethod fm ids
                                                      uniqueReviews (minimumRating td))
                                         else None)
                                  in \<lparr>success = True, provider = ''google'',
                                      results = uniqueReviews, error = None,
                                      summary = Some placeSummary,
                                      pagination =
                                        Some \<lparr>nextPageToken = token, hasMoreReviews = hasMore,
                                              currentPage = None, totalPages = None,
                                              pageSize = Some pgSize,
                                              totalReviews =
                                                Some (summaryTotalReviews placeSummary)\<rparr>\<rparr>))))))"

text \<open>
  A continuation chain in chunked mode: each call has its own upstream answers and
  request options, and resumes from the token the previous call emitted. The chain ends
  when a call emits no token.
\<close>

record chunkedCall =
  callDetails :: details
  callFetch :: "string \<Rightarrow> sortFetch"
  callMaxResults :: "int option"
  callMinRating :: "int option"

fun chunkedChain :: "js_engine \<Rightarrow> page_token option \<Rightarrow> chunkedCall list \<Rightarrow> ReviewResponse list" where
  "chunkedChain eng pageToken [] = []"
| "chunkedChain eng pageToken (c # cs) =
     (let response = getReviewsChunked eng (callDetails c) (callFetch c) (callMaxResults c)
                       (callMinRating c) pageToken
      in response #
         (case pagination response of
            None \<Rightarrow> []
          | Some pg \<Rightarrow>
              (case nextPageToken pg of
                 None \<Rightarrow> []
               | Some t \<Rightarrow> chunkedChain eng (Some (Parsed t)) cs)))"

section \<open>Chunked pagination, as the specification words it\<close>

text \<open>
  The identity keys a page token carries as already emitted: the elements of the set of
  review ids that \<open>getReviewsChunked\<close> reads from it.
\<close>

definition seenKeys :: "page_token option \<Rightarrow> json set" where
  "seenKeys pageToken = set (reviewIds (parseChunkToken None pageToken))"



section \<open>Example inputs\<close>

definition downingStreet :: string where
  "downingStreet = ''10 Downing Street, London, UK''"

definition upstream_fallback :: "nat upstream" where
  "upstream_fallback =
     \<lparr>census_probe = CensusMatches [0], census_fetch = (\<lambda>_. CensusMatches []),
      google_probe = GoogleOK [0], google_fetch = (\<lambda>_. GoogleOK [1])\<rparr>"

definition upstream_down :: "nat upstream" where
  "upstream_down =
     \<lparr>census_probe = CensusThrows ''fetch failed'', census_fetch = (\<lambda>_. CensusMatches []),
      google_probe = GoogleOK [0],
      google_fetch = (\<lambda>_. GoogleThrows [] ''Geocoding failed: ZERO_RESULTS'')\<rparr>"

definition exampleReview :: "string \<Rightarrow> string \<Rightarrow> int \<Rightarrow> Review" where
  "exampleReview a t r =
     \<lparr>author = a, authorProfilePhoto = None, rating = r, reviewText = ''Great'', time = t,
      relativeTime = None, language = None\<rparr>"

definition exampleSummary :: PlaceSummary where
  "exampleSummary =
     \<lparr>summaryName = ''Cafe'', summaryRating = 4, summaryTotalReviews = 20, summaryUrl = None\<rparr>"

definition exampleReviews :: "Review list" where
  "exampleReviews =
     [exampleReview ''Ann'' ''2024-01-01T00:00:00.000Z'' 5,
      exampleReview ''Bob'' ''2024-01-02T00:00:00.000Z'' 4,
      exampleReview ''Cy'' ''2024-01-03T00:00:00.000Z'' 3]"

definition exampleEngine :: js_engine where
  "exampleEngine =
     \<lparr>dateGetTime = (\<lambda>_. JNum 1704067200000), coerceLess = (\<lambda>_ _. False),
      coerceGreater = (\<lambda>_ _. False),
      typeErrorMessage = ''tokenData.fetchedMethods.includes is not a function''\<rparr>"

definition exampleFetch :: "string \<Rightarrow> sortFetch" where
  "exampleFetch sortBy = FetchOk exampleReviews"

definition exampleCall :: chunkedCall where
  "exampleCall =
     \<lparr>callDetails = DetailsOk exampleSummary, callFetch = exampleFetch,
      callMaxResults = Some 2, callMinRating = None\<rparr>"

definition annKey :: string where "annKey = ''Ann_2024-01-01T00:00:00.000Z''"
definition bobKey :: string where "bobKey = ''Bob_2024-01-02T00:00:00.000Z''"

definition exampleChunkToken :: json where
  "exampleChunkToken =
     JObj [(''sortMethod'', JStr ''most_relevant''),
           (''fetchedMethods'', JArr [JStr ''most_relevant'']),
           (''reviewIds'', JArr [JStr annKey, JStr bobKey]),
           (''lastReviewTime'', JNum 1704067200000)]"



definition fiveStarReviews :: "Review list" where
  "fiveStarReviews =
     [exampleReview ''Ann'' ''2024-01-01T00:00:00.000Z'' 5,
      exampleReview ''Dan'' ''2024-01-04T00:00:00.000Z'' 5,
      exampleReview ''Eve'' ''2024-01-05T00:00:00.000Z'' 5]"

definition exampleOffsetToken :: json where
  "exampleOffsetToken =
     JObj [(''startIndex'', JNum 2), (''placeId'', JStr ''place''), (''totalReviews'', JNum 3),
           (''minimumRating'', JNum 5)]"

definition numericFetchedMethodsToken :: json where
  "numericFetchedMethodsToken = JObj [(''fetchedMethods'', JNum 5)]"


section \<open>Properties of the country heuristic\<close>

lemma str_includes_iff: "str_includes s t \<longleftrightarrow> (\<exists>p q. s = p @ t @ q)"
proof (induction s)
  case Nil
  then show ?case by auto
next
  case (Cons c cs)
  show ?case
  proof
    assume "str_includes (c # cs) t"
    then consider "take (length t) (c # cs) = t" | "str_includes cs t" by auto
    then show "\<exists>p q. c # cs = p @ t @ q"
    proof cases
      case 1
      then have "c # cs = [] @ t @ drop (length t) (c # cs)"
        by (metis append_Nil append_take_drop_id)
      then show ?thesis by blast
    next
      case 2
      then obtain p q where "cs = p @ t @ q" using Cons.IH by blast
      then have "c # cs = (c # p) @ t @ q" by simp
      then show ?thesis by blast
    qed
  next
    assume "\<exists>p q. c # cs = p @ t @ q"
    then obtain p q where pq: "c # cs = p @ t @ q" by blast
    show "str_includes (c # cs) t"
    proof (cases p)
      case Nil
      then have "take (length t) (c # cs) = t" using pq by simp
      then show ?thesis by simp
    next
      case (Cons a p')
      then have "cs = p' @ t @ q" using pq by simp
      then have "str_includes cs t" using Cons.IH by blast
      then show ?thesis by simp
    qed
  qed
qed

lemma isUSAddress_iff:
  "isUSAddress a \<longleftrightarrow>
     regexTest statePatternAt None (toUpperCase a) \<or> regexTest zipPatternAt None a \<or>
     hasUSIndicator (toUpperCase a) \<or> \<not> hasNonUSCountry (toUpperCase a)"
  by (simp add: isUSAddress_def Let_def)

text \<open>
  Claim C10. The indicator tokens are matched by substring containment on the uppercased
  address, not at word boundaries: an address whose uppercased text contains \<open>US\<close>,
  \<open>ST\<close>, \<open>DR\<close>, \<open>RD\<close>, \<open>LN\<close> or \<open>AVE\<close> anywhere, also inside a longer word such as
  \<open>AUSTRALIA\<close> or \<open>STRASSE\<close>, is classified as a US address. The address is classified
  as non-US exactly when no state abbreviation, no zip pattern and no indicator matched
  and one of the non-US country tokens is present; when nothing matches at all, the
  answer defaults to US.
\<close>

theorem us_indicators_match_by_substring:
  "(\<forall>ind p q. ind \<in> set [''US'', ''ST'', ''DR'', ''RD'', ''LN'', ''AVE''] \<longrightarrow>
       toUpperCase address = p @ ind @ q \<longrightarrow> isUSAddress address) \<and>
   isUSAddress ''Australia'' \<and> isUSAddress ''Strasse'' \<and>
   (\<not> isUSAddress address \<longleftrightarrow>
      \<not> regexTest statePatternAt None (toUpperCase address) \<and>
      \<not> regexTest zipPatternAt None address \<and>
      \<not> hasUSIndicator (toUpperCase address) \<and>
      hasNonUSCountry (toUpperCase address)) \<and>
   (\<not> regexTest statePatternAt None (toUpperCase address) \<and>
    \<not> regexTest zipPatternAt None address \<and>
    \<not> hasUSIndicator (toUpperCase address) \<and>
    \<not> hasNonUSCountry (toUpperCase address) \<longrightarrow> isUSAddress address)"
proof (intro conjI allI impI)
  fix ind p q
  assume ind: "ind \<in> set [''US'', ''ST'', ''DR'', ''RD'', ''LN'', ''AVE'']"
    and eq: "toUpperCase address = p @ ind @ q"
  have "str_includes (toUpperCase address) ind" using eq str_includes_iff by blast
  moreover have "ind \<in> set usIndicators" using ind by (auto simp: usIndicators_def)
  ultimately have "hasUSIndicator (toUpperCase address)"
    unfolding hasUSIndicator_def list_ex_iff by blast
  then show "isUSAddress address" by (simp add: isUSAddress_iff)
next
  show "isUSAddress ''Australia''" by code_simp
next
  show "isUSAddress ''Strasse''" by code_simp
next
  show "(\<not> isUSAddress address) =
    (\<not> regexTest statePatternAt None (toUpperCase address) \<and>
     \<not> regexTest zipPatternAt None address \<and>
     \<not> hasUSIndicator (toUpperCase address) \<and> hasNonUSCountry (toUpperCase address))"
    by (simp add: isUSAddress_iff)
next
  assume "\<not> regexTest statePatternAt None (toUpperCase address) \<and>
    \<not> regexTest zipPatternAt None address \<and>
    \<not> hasUSIndicator (toUpperCase address) \<and> \<not> hasNonUSCountry (toUpperCase address)"
  then show "isUSAddress address" by (simp add: isUSAddress_iff)
qed

theorem us_indicators_match_by_substring_witness:
  "isUSAddress ''Sydney, Australia'' \<and> \<not> isUSAddress ''London, UK'' \<and> isUSAddress ''Paris''"
proof -
  have 1: "''US'' \<in> set [''US'', ''ST'', ''DR'', ''RD'', ''LN'', ''AVE'']" by simp
  have 2: "toUpperCase ''Sydney, Australia'' = ''SYDNEY, A'' @ ''US'' @ ''TRALIA''" by code_simp
  have a: "isUSAddress ''Sydney, Australia''"
    using us_indicators_match_by_substring[of "''Sydney, Australia''"] 1 2 by blast
  have 3: "\<not> regexTest statePatternAt None (toUpperCase ''London, UK'') \<and>
      \<not> regexTest zipPatternAt None ''London, UK'' \<and>
      \<not> hasUSIndicator (toUpperCase ''London, UK'') \<and>
      hasNonUSCountry (toUpperCase ''London, UK'')" by code_simp
  have b: "\<not> isUSAddress ''London, UK''"
    using us_indicators_match_by_substring[of "''London, UK''"] 3 by blast
  have 4: "\<not> regexTest statePatternAt None (toUpperCase ''Paris'') \<and>
    \<not> regexTest zipPatternAt None ''Paris'' \<and>
    \<not> hasUSIndicator (toUpperCase ''Paris'') \<and>
    \<not> hasNonUSCountry (toUpperCase ''Paris'')" by code_simp
  have c: "isUSAddress ''Paris''"
    using us_indicators_match_by_substring[of "''Paris''"] 4 by blast
  show ?thesis using a b c by blast
qed


section \<open>The fallback loop\<close>

lemma tryProviders_reject:
  assumes "\<not> accepted p a"
  shows "tryProviders (p # ps) a le calls = tryProviders ps a (recorded p a le) (calls @ callsOf p a)"
proof (cases "isAvailable p")
  case (Pair av reqs)
  show ?thesis
  proof (cases av)
    case Threw
    with Pair show ?thesis by (simp add: recorded_def callsOf_def)
  next
    case (Returned b)
    show ?thesis
    proof (cases b)
      case False
      with Pair Returned show ?thesis by (simp add: recorded_def callsOf_def)
    next
      case True
      obtain g greqs where g: "geocode p a = (g, greqs)" by (cases "geocode p a")
      show ?thesis
      proof (cases g)
        case Threw
        with Pair Returned True g show ?thesis by (simp add: recorded_def callsOf_def)
      next
        case (Returned r)
        with Pair \<open>av = Returned b\<close> True g assms show ?thesis
          by (auto simp add: recorded_def callsOf_def accepted_def)
      qed
    qed
  qed
qed

lemma tryProviders_accept:
  assumes "accepted p a" and "fst (geocode p a) = Returned r"
  shows "tryProviders (p # ps) a le calls = (Json r, calls @ callsOf p a)"
proof -
  obtain reqs where av: "isAvailable p = (Returned True, reqs)"
    using assms(1) by (cases "isAvailable p") (auto simp: accepted_def)
  obtain greqs where g: "geocode p a = (Returned r, greqs)"
    using assms(2) by (cases "geocode p a") auto
  have "success r \<and> results r \<noteq> []" using assms(1) g by (simp add: accepted_def)
  then show ?thesis using av g by (simp add: callsOf_def)
qed

lemma tryProviders_first_accepted:
  assumes "\<forall>q\<in>set pre. \<not> accepted q a" and "accepted p a" and "fst (geocode p a) = Returned r"
  shows "tryProviders (pre @ p # post) a le calls
         = (Json r, calls @ concat (map (\<lambda>q. callsOf q a) (pre @ [p])))"
  using assms(1)
proof (induction pre arbitrary: le calls)
  case Nil
  then show ?case using tryProviders_accept[OF assms(2,3)] by simp
next
  case (Cons q pre)
  then show ?case by (simp add: tryProviders_reject del: tryProviders.simps)
qed

lemma tryProviders_none_accepted:
  assumes "\<forall>q\<in>set ps. \<not> accepted q a"
  shows "tryProviders ps a le calls
         = (Json \<lparr>success = False, provider = ''multiple'', results = [],
                  error = Some (case fold (\<lambda>p e. recorded p a e) ps le of
                      None \<Rightarrow> allProvidersFailed | Some e \<Rightarrow> e)\<rparr>,
            calls @ concat (map (\<lambda>q. callsOf q a) ps))"
  using assms
proof (induction ps arbitrary: le calls)
  case Nil
  then show ?case by simp
next
  case (Cons q ps)
  then show ?case by (simp add: tryProviders_reject del: tryProviders.simps)
qed

text \<open>
  Claim C1. With no explicit provider name the handler tries the registered adapters in
  their declared order, Census first and then Google. An adapter whose probe fails is
  skipped, the first adapter whose outcome is successful with at least one result is
  returned unchanged, a successful empty outcome moves on to the next adapter, and a
  failure has its error recorded before the next adapter is tried. When no adapter is
  accepted the answer has \<open>success = False\<close>, provider \<open>multiple\<close>, no results and the
  last recorded error, or the all-providers-failed error when none was recorded. The
  calls made are those of the adapters up to the accepted one, in order.
\<close>

theorem fallback_in_priority_order:
  "map name (providers u) = [''census'', ''google''] \<and>
   (\<forall>pre p post r.
      ps = pre @ p # post \<longrightarrow> (\<forall>q\<in>set pre. \<not> accepted q address) \<longrightarrow>
      accepted p address \<longrightarrow> fst (geocode p address) = Returned r \<longrightarrow>
      POST ps address None = (Json r, concat (map (\<lambda>q. callsOf q address) (pre @ [p])))) \<and>
   ((\<forall>q\<in>set ps. \<not> accepted q address) \<longrightarrow>
      POST ps address None
        = (Json (exhausted ps address), concat (map (\<lambda>q. callsOf q address) ps)))"
proof (intro conjI allI impI)
  show "map name (providers u) = [''census'', ''google'']"
    by (simp add: providers_def CensusProvider_def GoogleProvider_def split: prod.splits)
next
  fix pre p post r
  assume "ps = pre @ p # post" "\<forall>q\<in>set pre. \<not> accepted q address"
    "accepted p address" "fst (geocode p address) = Returned r"
  then show "POST ps address None = (Json r, concat (map (\<lambda>q. callsOf q address) (pre @ [p])))"
    using tryProviders_first_accepted[of pre address p r post None "[]"]
    by (simp add: POST_def)
next
  assume "\<forall>q\<in>set ps. \<not> accepted q address"
  then show "POST ps address None
        = (Json (exhausted ps address), concat (map (\<lambda>q. callsOf q address) ps))"
    using tryProviders_none_accepted[of ps address None "[]"]
    by (simp add: POST_def exhausted_def)
qed


theorem fallback_in_priority_order_witness:
  "POST (providers upstream_fallback) ''Paris'' None
     = (Json \<lparr>success = True, provider = ''google'', results = [1], error = None\<rparr>,
        [IsAvailableCall ''census'' [''1600 Pennsylvania Avenue NW, Washington, DC 20500''],
         GeocodeCall ''census'' ''Paris'' [''Paris''],
         IsAvailableCall ''google'' [''1600 Amphitheatre Parkway, Mountain View, CA''],
         GeocodeCall ''google'' ''Paris'' [''Paris'']]) \<and>
   POST (providers upstream_down) ''Paris'' None
     = (Json \<lparr>success = False, provider = ''multiple'', results = [],
               error = Some \<lparr>code = ''UNKNOWN'', message = ''Geocoding failed: ZERO_RESULTS''\<rparr>\<rparr>,
        [IsAvailableCall ''census'' [''1600 Pennsylvania Avenue NW, Washington, DC 20500''],
         IsAvailableCall ''google'' [''1600 Amphitheatre Parkway, Mountain View, CA''],
         GeocodeCall ''google'' ''Paris'' [''Paris'']])"
proof -
  let ?c = "CensusProvider upstream_fallback" and ?g = "GoogleProvider upstream_fallback"
  have us: "isUSAddress ''Paris''" "isUSAddress ''1600 Pennsylvania Avenue NW, Washington, DC 20500''"
    by code_simp+
  have split: "providers upstream_fallback = [?c] @ ?g # []"
    by (simp add: providers_def)
  have c: "\<forall>q\<in>set [?c]. \<not> accepted q ''Paris''"
    using us by (simp add: accepted_def CensusProvider_def census_geocode_def upstream_fallback_def)
  have g: "accepted ?g ''Paris''"
    by (simp add: accepted_def GoogleProvider_def google_geocode_def upstream_fallback_def)
  have r: "fst (geocode ?g ''Paris'')
             = Returned \<lparr>success = True, provider = ''google'', results = [1], error = None\<rparr>"
    by (simp add: GoogleProvider_def google_geocode_def upstream_fallback_def)
  have first: "POST (providers upstream_fallback) ''Paris'' None
        = (Json \<lparr>success = True, provider = ''google'', results = [1], error = None\<rparr>,
           concat (map (\<lambda>q. callsOf q ''Paris'') ([?c] @ [?g])))"
    using fallback_in_priority_order[of upstream_fallback "providers upstream_fallback" "''Paris''"]
      split c g r by blast
  have none: "\<forall>q\<in>set (providers upstream_down). \<not> accepted q ''Paris''"
    using us by (simp add: providers_def accepted_def CensusProvider_def GoogleProvider_def
        census_geocode_def google_geocode_def upstream_down_def)
  have second: "POST (providers upstream_down) ''Paris'' None
        = (Json (exhausted (providers upstream_down) ''Paris''),
           concat (map (\<lambda>q. callsOf q ''Paris'') (providers upstream_down)))"
    using fallback_in_priority_order[of upstream_down "providers upstream_down" "''Paris''"] none
    by blast
  show ?thesis
    unfolding first second using us
    by (simp add: callsOf_def exhausted_def recorded_def providers_def CensusProvider_def
        GoogleProvider_def census_geocode_def google_geocode_def upstream_fallback_def
        upstream_down_def)
qed

section \<open>An explicitly named provider\<close>

text \<open>
  Claim C2. When the request names a provider, only the adapter of that name is called
  and there is no fallback: a name that matches no registered adapter gives the
  provider-not-found answer without any call, and the outcome of the named adapter is
  returned as it is, also when it is a failure. The Census adapter asked by name for an
  address its heuristic classifies as non-US answers with its non-US failure, and Google
  is never called.
\<close>

theorem explicit_provider_never_falls_back:
  assumes "n \<noteq> []"
  shows "(\<forall>c\<in>set (snd (POST ps address (Some n))). callee c = n) \<and>
         (find (\<lambda>p. name p = n) ps = None \<longrightarrow>
            POST ps address (Some n) = (ErrorJson ''Provider not found or not available'' 400, [])) \<and>
         (\<forall>p r. find (\<lambda>p. name p = n) ps = Some p \<longrightarrow> fst (isAvailable p) = Returned True \<longrightarrow>
            fst (geocode p address) = Returned r \<longrightarrow>
            fst (POST ps address (Some n)) = Json r \<and>
            snd (POST ps address (Some n))
              = [IsAvailableCall n (snd (isAvailable p)),
                 GeocodeCall n address (snd (geocode p address))]) \<and>
         (\<not> isUSAddress address \<longrightarrow> fst (isAvailable (CensusProvider u)) = Returned True \<longrightarrow>
            POST (providers u) address (Some ''census'')
              = (Json \<lparr>success = False, provider = ''census'', results = [],
                        error = Some \<lparr>code = ''NON_US_ADDRESS'',
                                       message = ''Census geocoder only supports US addresses''\<rparr>\<rparr>,
                 [IsAvailableCall ''census'' (snd (isAvailable (CensusProvider u))),
                  GeocodeCall ''census'' address []]))"
proof (intro conjI allI impI ballI)
  fix c
  assume c: "c \<in> set (snd (POST ps address (Some n)))"
  show "callee c = n"
  proof (cases "find (\<lambda>p. name p = n) ps")
    case None
    with assms c show ?thesis by (simp add: POST_def)
  next
    case (Some p)
    then have "name p = n" by (auto simp: find_Some_iff)
    with Some assms c show ?thesis
      by (auto simp: POST_def split: prod.splits outcome.splits bool.splits)
  qed
next
  assume "find (\<lambda>p. name p = n) ps = None"
  with assms show "POST ps address (Some n) = (ErrorJson ''Provider not found or not available'' 400, [])"
    by (simp add: POST_def)
next
  fix p r
  assume f: "find (\<lambda>p. name p = n) ps = Some p" and a: "fst (isAvailable p) = Returned True"
    and g: "fst (geocode p address) = Returned r"
  from f have nm: "name p = n" by (auto simp: find_Some_iff)
  from f a g assms nm show "fst (POST ps address (Some n)) = Json r"
    by (auto simp: POST_def split: prod.splits outcome.splits bool.splits)
  from f a g assms nm show "snd (POST ps address (Some n))
      = [IsAvailableCall n (snd (isAvailable p)), GeocodeCall n address (snd (geocode p address))]"
    by (auto simp: POST_def split: prod.splits outcome.splits bool.splits)
next
  assume nus: "\<not> isUSAddress address"
    and av: "fst (isAvailable (CensusProvider u)) = Returned True"
  have f: "find (\<lambda>p. name p = ''census'') (providers u) = Some (CensusProvider u)"
    by (simp add: providers_def CensusProvider_def split: prod.splits)
  have g: "geocode (CensusProvider u) address
      = (Returned \<lparr>success = False, provider = ''census'', results = [],
                        error = Some \<lparr>code = ''NON_US_ADDRESS'',
                                       message = ''Census geocoder only supports US addresses''\<rparr>\<rparr>, [])"
    using nus by (simp add: CensusProvider_def census_geocode_def)
  have nm: "name (CensusProvider u) = ''census''"
    by (simp add: CensusProvider_def split: prod.splits)
  obtain reqs where p: "isAvailable (CensusProvider u) = (Returned True, reqs)"
    using av by (cases "isAvailable (CensusProvider u)") auto
  show "POST (providers u) address (Some ''census'')
              = (Json \<lparr>success = False, provider = ''census'', results = [],
                        error = Some \<lparr>code = ''NON_US_ADDRESS'',
                                       message = ''Census geocoder only supports US addresses''\<rparr>\<rparr>,
                 [IsAvailableCall ''census'' (snd (isAvailable (CensusProvider u))),
                  GeocodeCall ''census'' address []])"
    using f g p nm by (simp add: POST_def)
qed

theorem explicit_provider_never_falls_back_witness:
  "POST (providers upstream_fallback) ''London, UK'' (Some ''census'')
     = (Json \<lparr>success = False, provider = ''census'', results = [],
               error = Some \<lparr>code = ''NON_US_ADDRESS'',
                              message = ''Census geocoder only supports US addresses''\<rparr>\<rparr>,
        [IsAvailableCall ''census'' [''1600 Pennsylvania Avenue NW, Washington, DC 20500''],
         GeocodeCall ''census'' ''London, UK'' []]) \<and>
   POST (providers upstream_fallback) ''London, UK'' (Some ''bing'')
     = (ErrorJson ''Provider not found or not available'' 400, [])"
proof -
  have n: "''census'' \<noteq> []" "''bing'' \<noteq> []" by simp_all
  have us: "isUSAddress ''1600 Pennsylvania Avenue NW, Washington, DC 20500''" by code_simp
  have nus: "\<not> isUSAddress ''London, UK''" by code_simp
  have av: "isAvailable (CensusProvider upstream_fallback)
      = (Returned True, [''1600 Pennsylvania Avenue NW, Washington, DC 20500''])"
    using us by (simp add: CensusProvider_def census_geocode_def upstream_fallback_def)
  have nf: "find (\<lambda>p. name p = ''bing'') (providers upstream_fallback) = None"
    by (simp add: providers_def CensusProvider_def GoogleProvider_def split: prod.splits)
  have a: "POST (providers upstream_fallback) ''London, UK'' (Some ''census'')
     = (Json \<lparr>success = False, provider = ''census'', results = [],
               error = Some \<lparr>code = ''NON_US_ADDRESS'',
                              message = ''Census geocoder only supports US addresses''\<rparr>\<rparr>,
        [IsAvailableCall ''census'' (snd (isAvailable (CensusProvider upstream_fallback))),
         GeocodeCall ''census'' ''London, UK'' []])"
    using explicit_provider_never_falls_back[OF n(1), of "providers upstream_fallback"
        "''London, UK''" upstream_fallback] nus av by simp
  have b: "POST (providers upstream_fallback) ''London, UK'' (Some ''bing'')
     = (ErrorJson ''Provider not found or not available'' 400, [])"
    using explicit_provider_never_falls_back[OF n(2), of "providers upstream_fallback"
        "''London, UK''" upstream_fallback] nf by blast
  show ?thesis using a b av by simp
qed

section \<open>The Downing Street example\<close>

lemma downingStreet_US: "isUSAddress downingStreet"
  unfolding downingStreet_def by code_simp

lemma knownAddress_US: "isUSAddress ''1600 Pennsylvania Avenue NW, Washington, DC 20500''"
  by code_simp

text \<open>
  The address \<open>10 Downing Street, London, UK\<close> contains the indicator \<open>STREET\<close>, so the
  heuristic classifies it as a US address and the Census adapter sends it to its
  upstream instead of rejecting it.
\<close>

theorem downing_street_counterexample:
  "isUSAddress ''10 Downing Street, London, UK'' \<and>
   geocode (CensusProvider upstream_fallback) ''10 Downing Street, London, UK''
     = (Returned \<lparr>success = True, provider = ''census'', results = [], error = None\<rparr>,
        [''10 Downing Street, London, UK''])"
  using downingStreet_US
  by (simp add: downingStreet_def CensusProvider_def census_geocode_def upstream_fallback_def)

text \<open>
  Claim C3, as the code has it. The address \<open>10 Downing Street, London, UK\<close> is
  classified as a US address, and the Census adapter sends it to its upstream. With no
  explicit provider the request reaches Google when the Census adapter is unavailable,
  finds no match or fails, and a successful non-empty Google outcome is then returned
  under the name \<open>google\<close>; when the Census upstream does return a match, the outcome
  returned is the Census one.
\<close>

theorem downing_street_is_looked_up_by_census:
  "downingStreet = ''10 Downing Street, London, UK'' \<and>
   isUSAddress downingStreet \<and>
   snd (geocode (CensusProvider u) downingStreet) = [downingStreet] \<and>
   ((fst (isAvailable (CensusProvider u)) = Returned False \<or>
     census_fetch u downingStreet = CensusMatches [] \<or>
     (\<exists>m. census_fetch u downingStreet = CensusThrows m)) \<longrightarrow>
    (\<exists>x. google_probe u = GoogleOK x) \<longrightarrow>
    google_fetch u downingStreet = GoogleOK rs \<longrightarrow> rs \<noteq> [] \<longrightarrow>
    fst (POST (providers u) downingStreet None)
      = Json \<lparr>success = True, provider = ''google'', results = rs, error = None\<rparr>) \<and>
   (fst (isAvailable (CensusProvider u)) = Returned True \<longrightarrow>
    census_fetch u downingStreet = CensusMatches rs \<longrightarrow> rs \<noteq> [] \<longrightarrow>
    fst (POST (providers u) downingStreet None)
      = Json \<lparr>success = True, provider = ''census'', results = rs, error = None\<rparr>)"
proof (intro conjI impI)
  show "downingStreet = ''10 Downing Street, London, UK''" by (simp add: downingStreet_def)
  show "isUSAddress downingStreet" by (rule downingStreet_US)
  show "snd (geocode (CensusProvider u) downingStreet) = [downingStreet]"
    using downingStreet_US
    by (simp add: CensusProvider_def census_geocode_def split: census_reply.splits)
next
  assume c: "fst (isAvailable (CensusProvider u)) = Returned False \<or>
     census_fetch u downingStreet = CensusMatches [] \<or>
     (\<exists>m. census_fetch u downingStreet = CensusThrows m)"
    and gp: "\<exists>x. google_probe u = GoogleOK x"
    and gf: "google_fetch u downingStreet = GoogleOK rs" and ne: "rs \<noteq> []"
  let ?c = "CensusProvider u" and ?g = "GoogleProvider u"
  have nc: "\<forall>q\<in>set [?c]. \<not> accepted q downingStreet"
    using c downingStreet_US
    by (auto simp: accepted_def CensusProvider_def census_geocode_def
        split: census_reply.splits prod.splits)
  have g: "accepted ?g downingStreet"
    using gp gf ne by (auto simp: accepted_def GoogleProvider_def google_geocode_def)
  have r: "fst (geocode ?g downingStreet)
       = Returned \<lparr>success = True, provider = ''google'', results = rs, error = None\<rparr>"
    using gf by (simp add: GoogleProvider_def google_geocode_def)
  show "fst (POST (providers u) downingStreet None)
      = Json \<lparr>success = True, provider = ''google'', results = rs, error = None\<rparr>"
    using tryProviders_first_accepted[OF nc g r, of "[]" None "[]"]
    by (simp add: POST_def providers_def del: tryProviders.simps)
next
  assume a: "fst (isAvailable (CensusProvider u)) = Returned True"
    and f: "census_fetch u downingStreet = CensusMatches rs" and ne: "rs \<noteq> []"
  let ?c = "CensusProvider u" and ?g = "GoogleProvider u"
  have r: "fst (geocode ?c downingStreet)
       = Returned \<lparr>success = True, provider = ''census'', results = rs, error = None\<rparr>"
    using f downingStreet_US by (simp add: CensusProvider_def census_geocode_def)
  have acc: "accepted ?c downingStreet"
    using a r ne by (simp add: accepted_def)
  have nc: "\<forall>q\<in>set []. \<not> accepted q downingStreet" by simp
  show "fst (POST (providers u) downingStreet None)
      = Json \<lparr>success = True, provider = ''census'', results = rs, error = None\<rparr>"
    using tryProviders_first_accepted[OF nc acc r, of "[?g]" None "[]"]
    by (simp add: POST_def providers_def del: tryProviders.simps)
qed

theorem downing_street_is_looked_up_by_census_witness:
  "snd (geocode (CensusProvider upstream_fallback) ''10 Downing Street, London, UK'')
     = [''10 Downing Street, London, UK''] \<and>
   fst (POST (providers upstream_fallback) ''10 Downing Street, London, UK'' None)
     = Json \<lparr>success = True, provider = ''google'', results = [1], error = None\<rparr>"
proof -
  have d: "downingStreet = ''10 Downing Street, London, UK''" by (simp add: downingStreet_def)
  have c: "census_fetch upstream_fallback downingStreet = CensusMatches []"
    by (simp add: upstream_fallback_def)
  have gp: "\<exists>x. google_probe upstream_fallback = GoogleOK x"
    by (simp add: upstream_fallback_def)
  have gf: "google_fetch upstream_fallback downingStreet = GoogleOK [1]"
    by (simp add: upstream_fallback_def)
  have ne: "[1::nat] \<noteq> []" by simp
  show ?thesis
    using downing_street_is_looked_up_by_census[of upstream_fallback "[1]"] c gp gf ne
    unfolding d by blast
qed


section \<open>Deduplication of reviews\<close>

lemma dedupFilter_snoc:
  "dedupFilter seen (xs @ [x])
     = dedupFilter seen xs @ (if reviewKey x \<in> seen \<union> reviewKey ` set xs then [] else [x])"
proof (induction xs arbitrary: seen)
  case Nil
  then show ?case by simp
next
  case (Cons y ys)
  show ?case
  proof (cases "reviewKey y \<in> seen")
    case True
    then show ?thesis using Cons.IH[of seen] by (auto simp: Let_def)
  next
    case False
    then show ?thesis using Cons.IH[of "insert (reviewKey y) seen"] by (auto simp: Let_def)
  qed
qed

lemma no_earlier_key_iff:
  "(\<forall>j<length xs. reviewKey (xs ! j) \<noteq> reviewKey x) \<longleftrightarrow> reviewKey x \<notin> reviewKey ` set xs"
proof
  assume L: "\<forall>j<length xs. reviewKey (xs ! j) \<noteq> reviewKey x"
  show "reviewKey x \<notin> reviewKey ` set xs"
  proof
    assume "reviewKey x \<in> reviewKey ` set xs"
    then obtain y where y: "y \<in> set xs" "reviewKey x = reviewKey y" by (rule imageE)
    from y(1) obtain j where "j < length xs" "xs ! j = y" unfolding in_set_conv_nth by fast
    with L y(2) show False by fastforce
  qed
next
  assume R: "reviewKey x \<notin> reviewKey ` set xs"
  show "\<forall>j<length xs. reviewKey (xs ! j) \<noteq> reviewKey x"
  proof (intro allI impI)
    fix j assume "j < length xs"
    then have "xs ! j \<in> set xs" by (rule nth_mem)
    then have "reviewKey (xs ! j) \<in> reviewKey ` set xs" by (rule imageI)
    with R show "reviewKey (xs ! j) \<noteq> reviewKey x" by metis
  qed
qed

lemma deduplicate_by_key:
  "deduplicateReviews reviews
     = map (nth reviews)
         (filter (\<lambda>i. \<forall>j<i. reviewKey (reviews ! j) \<noteq> reviewKey (reviews ! i))
            [0..<length reviews])"
proof (induction reviews rule: rev_induct)
  case Nil
  then show ?case by (simp add: deduplicateReviews_def)
next
  case (snoc x xs)
  let ?P = "\<lambda>l i. \<forall>j<i. reviewKey (l ! j) \<noteq> reviewKey (l ! i)"
  have same: "filter (?P (xs @ [x])) [0..<length xs] = filter (?P xs) [0..<length xs]"
    by (rule filter_cong[OF refl]) (simp add: nth_append)
  have idx: "map (nth (xs @ [x])) (filter (?P xs) [0..<length xs])
           = map (nth xs) (filter (?P xs) [0..<length xs])"
    by (rule map_cong[OF refl]) (simp add: nth_append)
  have last: "?P (xs @ [x]) (length xs) \<longleftrightarrow> reviewKey x \<notin> reviewKey ` set xs"
    using no_earlier_key_iff[of xs x] by (simp add: nth_append)
  have "deduplicateReviews (xs @ [x])
      = deduplicateReviews xs @ (if reviewKey x \<in> reviewKey ` set xs then [] else [x])"
    by (simp add: deduplicateReviews_def dedupFilter_snoc)
  also have "\<dots> = map (nth xs) (filter (?P xs) [0..<length xs])
                    @ (if reviewKey x \<in> reviewKey ` set xs then [] else [x])"
    using snoc.IH by simp
  also have "\<dots> = map (nth (xs @ [x])) (filter (?P (xs @ [x])) ([0..<length xs] @ [length xs]))"
    unfolding filter_append map_append same idx using last by simp
  also have "\<dots> = map (nth (xs @ [x])) (filter (?P (xs @ [x])) [0..<length (xs @ [x])])"
    by simp
  finally show ?case .
qed

lemma first_sep_unique:
  "c \<notin> set xs \<Longrightarrow> c \<notin> set xs' \<Longrightarrow> xs @ c # ys = xs' @ c # ys' \<Longrightarrow> xs = xs' \<and> ys = ys'"
proof (induction xs arbitrary: xs')
  case Nil
  then show ?case by (cases xs') auto
next
  case (Cons x xs)
  then show ?case by (cases xs') auto
qed

lemma append_sep_unique:
  assumes "a @ c # t = a' @ c # t'" and "c \<notin> set t" and "c \<notin> set t'"
  shows "a = a' \<and> t = t'"
proof -
  have eq: "rev t @ c # rev a = rev t' @ c # rev a'"
    using arg_cong[OF assms(1), of rev] by simp
  have "c \<notin> set (rev t)" "c \<notin> set (rev t')" using assms(2,3) by simp_all
  then have "rev t = rev t' \<and> rev a = rev a'"
    using eq by (rule first_sep_unique)
  then show ?thesis by simp
qed

lemma reviewKey_eq_iff:
  assumes "CHR ''_'' \<notin> set (time a)" and "CHR ''_'' \<notin> set (time b)"
  shows "reviewKey a = reviewKey b \<longleftrightarrow> author a = author b \<and> time a = time b"
proof
  assume "reviewKey a = reviewKey b"
  then have "author a @ CHR ''_'' # time a = author b @ CHR ''_'' # time b"
    by (simp add: reviewKey_def)
  then show "author a = author b \<and> time a = time b"
    using assms by (rule append_sep_unique)
next
  assume "author a = author b \<and> time a = time b"
  then show "reviewKey a = reviewKey b" by (simp add: reviewKey_def)
qed

text \<open>
  Claim C4. Deduplication keeps exactly the first-seen occurrence of each identity: a
  review is dropped when an earlier review of the list has the same author and the same
  timestamp, every other review is kept, and the kept reviews stand in the order of the
  input. The timestamps are the ISO-8601 strings the provider produces, which contain no
  underscore; the key \<open>author_time\<close> then determines the pair (author, timestamp).
\<close>

theorem deduplicate_keeps_first_seen:
  assumes "\<forall>r\<in>set reviews. CHR ''_'' \<notin> set (time r)"
  shows "deduplicateReviews reviews
           = map (nth reviews)
               (filter (\<lambda>i. \<forall>j<i. \<not> (author (reviews ! j) = author (reviews ! i) \<and>
                                        time (reviews ! j) = time (reviews ! i)))
                  [0..<length reviews])"
proof -
  have "filter (\<lambda>i. \<forall>j<i. reviewKey (reviews ! j) \<noteq> reviewKey (reviews ! i)) [0..<length reviews]
      = filter (\<lambda>i. \<forall>j<i. \<not> (author (reviews ! j) = author (reviews ! i) \<and>
                                        time (reviews ! j) = time (reviews ! i)))
                  [0..<length reviews]"
  proof (rule filter_cong[OF refl])
    fix i assume "i \<in> set [0..<length reviews]"
    then have i: "i < length reviews" by simp
    have "\<And>j. j < i \<Longrightarrow> (reviewKey (reviews ! j) = reviewKey (reviews ! i))
        = (author (reviews ! j) = author (reviews ! i) \<and> time (reviews ! j) = time (reviews ! i))"
      using assms i by (intro reviewKey_eq_iff) simp_all
    then show "(\<forall>j<i. reviewKey (reviews ! j) \<noteq> reviewKey (reviews ! i))
       = (\<forall>j<i. \<not> (author (reviews ! j) = author (reviews ! i) \<and>
                                        time (reviews ! j) = time (reviews ! i)))"
      by simp
  qed
  then show ?thesis using deduplicate_by_key[of reviews] by simp
qed

theorem deduplicate_keeps_first_seen_witness:
  "deduplicateReviews
     [exampleReview ''Ann'' ''2024-01-01T00:00:00.000Z'' 5,
      exampleReview ''Bob'' ''2024-01-01T00:00:00.000Z'' 4,
      exampleReview ''Ann'' ''2024-01-01T00:00:00.000Z'' 5,
      exampleReview ''Ann'' ''2024-02-01T00:00:00.000Z'' 3]
   = [exampleReview ''Ann'' ''2024-01-01T00:00:00.000Z'' 5,
      exampleReview ''Bob'' ''2024-01-01T00:00:00.000Z'' 4,
      exampleReview ''Ann'' ''2024-02-01T00:00:00.000Z'' 3]"
proof -
  let ?rs = "[exampleReview ''Ann'' ''2024-01-01T00:00:00.000Z'' 5,
      exampleReview ''Bob'' ''2024-01-01T00:00:00.000Z'' 4,
      exampleReview ''Ann'' ''2024-01-01T00:00:00.000Z'' 5,
      exampleReview ''Ann'' ''2024-02-01T00:00:00.000Z'' 3]"
  have h: "\<forall>r\<in>set ?rs. CHR ''_'' \<notin> set (time r)"
    by (simp add: exampleReview_def)
  have up: "[0..<length ?rs] = [0, Suc 0, Suc (Suc 0), Suc (Suc (Suc 0))]" by (simp add: upt_rec)
  show ?thesis
    unfolding deduplicate_keeps_first_seen[OF h] up
    by (simp add: exampleReview_def All_less_Suc)
qed

text \<open>
  On a cold cache the list \<open>getReviewsForPlace\<close> returns, merged from the three sort
  orders and filtered by rating, holds every identity key once.
\<close>

lemma dedupFilter_distinct:
  "distinct (map reviewKey (dedupFilter seen reviews)) \<and>
   (\<forall>r\<in>set (dedupFilter seen reviews). reviewKey r \<notin> seen)"
proof (induction reviews arbitrary: seen)
  case Nil
  then show ?case by simp
next
  case (Cons review reviews)
  show ?case
  proof (cases "reviewKey review \<in> seen")
    case True
    then show ?thesis using Cons.IH[of seen] by (simp add: Let_def)
  next
    case False
    have ih: "distinct (map reviewKey (dedupFilter (insert (reviewKey review) seen) reviews))"
      "\<forall>r\<in>set (dedupFilter (insert (reviewKey review) seen) reviews).
         reviewKey r \<notin> insert (reviewKey review) seen"
      using Cons.IH[of "insert (reviewKey review) seen"] by blast+
    have "reviewKey review \<notin> reviewKey ` set (dedupFilter (insert (reviewKey review) seen) reviews)"
      using ih(2) by force
    then show ?thesis using False ih by (simp add: Let_def)
  qed
qed

lemma merged_reviews_distinct_keys:
  "distinct (map reviewKey (fst (getReviewsForPlace None fetch minRating)))"
proof -
  have d: "\<And>rs. distinct (map reviewKey (deduplicateReviews rs))"
    using dedupFilter_distinct by (simp add: deduplicateReviews_def)
  show ?thesis
    by (cases minRating) (simp_all add: getReviewsForPlace_def Let_def d distinct_map_filter)
qed

section \<open>Offset pagination\<close>

lemma js_slice_nonneg:
  assumes "0 \<le> s" and "s \<le> e"
  shows "js_slice xs s e = take (nat (e - s)) (drop (nat s) xs)"
proof (cases "s \<le> int (length xs)")
  case True
  have "take (nat (min e (int (length xs)) - s)) (drop (nat s) xs)
      = take (nat (e - s)) (drop (nat s) xs)"
  proof (cases "e \<le> int (length xs)")
    case True
    then show ?thesis by (simp add: min_def)
  next
    case False
    then have "length (drop (nat s) xs) \<le> nat (int (length xs) - s)"
      and "length (drop (nat s) xs) \<le> nat (e - s)" using assms by auto
    then show ?thesis using False by (simp add: min_def)
  qed
  then show ?thesis using True assms by (simp add: js_slice_def Let_def min_def)
next
  case False
  then have "drop (nat s) xs = []" "drop (length xs) xs = []" by auto
  then show ?thesis using False assms by (simp add: js_slice_def Let_def min_def)
qed

lemma startIndexOf_nonneg: "0 \<le> startIndexOf tok"
  by (auto simp: startIndexOf_def split: option.splits page_token.splits outcome.splits json.splits)

lemma startIndexOf_emitted:
  "0 \<le> e \<Longrightarrow> startIndexOf (Some (Parsed (offsetToken e placeId totalCount minRating))) = e"
  by (simp add: startIndexOf_def offsetToken_def)

lemma getReviews_page:
  assumes "0 < pageSizeOf maxResults"
  shows "results (getReviews (DetailsOk sm) allReviews placeId maxResults minRating tok)
           = take (nat (pageSizeOf maxResults)) (drop (nat (startIndexOf tok)) allReviews)"
    and "\<exists>pg. pagination (getReviews (DetailsOk sm) allReviews placeId maxResults minRating tok) = Some pg \<and>
           hasMoreReviews pg = (startIndexOf tok + pageSizeOf maxResults < int (length allReviews)) \<and>
           (nextPageToken pg = None \<longleftrightarrow> int (length allReviews) \<le> startIndexOf tok + pageSizeOf maxResults) \<and>
           (\<forall>t. nextPageToken pg = Some t \<longrightarrow>
              startIndexOf (Some (Parsed t)) = startIndexOf tok + pageSizeOf maxResults)"
proof -
  let ?s = "startIndexOf tok" and ?n = "pageSizeOf maxResults"
  have s0: "0 \<le> ?s" by (rule startIndexOf_nonneg)
  have sl: "js_slice allReviews ?s (?s + ?n) = take (nat ?n) (drop (nat ?s) allReviews)"
    using js_slice_nonneg[of ?s "?s + ?n" allReviews] s0 assms by simp
  show "results (getReviews (DetailsOk sm) allReviews placeId maxResults minRating tok)
           = take (nat ?n) (drop (nat ?s) allReviews)"
    using sl by (simp add: getReviews_def Let_def)
  have e0: "0 \<le> ?s + ?n" using s0 assms by simp
  show "\<exists>pg. pagination (getReviews (DetailsOk sm) allReviews placeId maxResults minRating tok) = Some pg \<and>
           hasMoreReviews pg = (?s + ?n < int (length allReviews)) \<and>
           (nextPageToken pg = None \<longleftrightarrow> int (length allReviews) \<le> ?s + ?n) \<and>
           (\<forall>t. nextPageToken pg = Some t \<longrightarrow> startIndexOf (Some (Parsed t)) = ?s + ?n)"
    using startIndexOf_emitted[OF e0]
    by (simp add: getReviews_def Let_def)
qed

lemma followPages_from:
  assumes "0 < pageSizeOf maxResults"
  shows "length allReviews - nat (startIndexOf tok) < fuel \<Longrightarrow>
         \<exists>pages. followPages fuel (DetailsOk sm) allReviews placeId maxResults minRating tok = Some pages
                \<and> concat pages = drop (nat (startIndexOf tok)) allReviews"
proof (induction fuel arbitrary: tok)
  case 0
  then show ?case by simp
next
  case (Suc fuel)
  let ?s = "startIndexOf tok" and ?n = "pageSizeOf maxResults"
  let ?r = "getReviews (DetailsOk sm) allReviews placeId maxResults minRating tok"
  have s0: "0 \<le> ?s" by (rule startIndexOf_nonneg)
  have res: "results ?r = take (nat ?n) (drop (nat ?s) allReviews)"
    using getReviews_page(1)[OF assms] by simp
  obtain pg where pg: "pagination ?r = Some pg"
    "hasMoreReviews pg = (?s + ?n < int (length allReviews))"
    "nextPageToken pg = None \<longleftrightarrow> int (length allReviews) \<le> ?s + ?n"
    "\<forall>t. nextPageToken pg = Some t \<longrightarrow> startIndexOf (Some (Parsed t)) = ?s + ?n"
    using getReviews_page(2)[OF assms, where tok=tok and allReviews=allReviews and sm=sm and placeId=placeId and minRating=minRating] by auto
  show ?case
  proof (cases "?s + ?n < int (length allReviews)")
    case True
    then obtain t where t: "nextPageToken pg = Some t" using pg(3) by (cases "nextPageToken pg") auto
    then have next_s: "startIndexOf (Some (Parsed t)) = ?s + ?n" using pg(4) by simp
    have "length allReviews - nat (?s + ?n) < fuel"
      using Suc.prems True s0 assms by linarith
    then obtain pages where pages:
      "followPages fuel (DetailsOk sm) allReviews placeId maxResults minRating (Some (Parsed t)) = Some pages"
      "concat pages = drop (nat (?s + ?n)) allReviews"
      using Suc.IH[where tok="Some (Parsed t)"] next_s by auto
    have "nat (?s + ?n) = nat ?n + nat ?s" using s0 assms by linarith
    then have "take (nat ?n) (drop (nat ?s) allReviews) @ drop (nat (?s + ?n)) allReviews
        = drop (nat ?s) allReviews"
      by (simp add: drop_drop[symmetric] del: drop_drop)
    then show ?thesis using pg(1,2) True t pages res by (simp add: Let_def)
  next
    case False
    then have "length (drop (nat ?s) allReviews) \<le> nat ?n" using s0 by auto
    then have "take (nat ?n) (drop (nat ?s) allReviews) = drop (nat ?s) allReviews" by simp
    then show ?thesis using pg(1,2) False res by (simp add: Let_def)
  qed
qed

text \<open>
  Claim C5. In standard mode over a fixed review list, with a positive page size: each
  page is the slice from \<open>startIndex\<close> to \<open>startIndex + pageSize\<close> of the list,
  \<open>hasMoreReviews\<close> says whether \<open>startIndex + pageSize\<close> is below the length of the
  list, the token is omitted exactly when no review remains, and an emitted token is read
  back with \<open>startIndex\<close> equal to the previous end index. Starting with no token and
  following the tokens until \<open>hasMoreReviews\<close> is false terminates and the pages
  concatenated are the list itself.
\<close>

theorem offset_pages_partition_the_list:
  assumes "0 < pageSizeOf maxResults"
  shows "results (getReviews (DetailsOk sm) allReviews placeId maxResults minRating tok)
           = take (nat (pageSizeOf maxResults)) (drop (nat (startIndexOf tok)) allReviews) \<and>
         (\<exists>pg. pagination (getReviews (DetailsOk sm) allReviews placeId maxResults minRating tok) = Some pg \<and>
            hasMoreReviews pg = (startIndexOf tok + pageSizeOf maxResults < int (length allReviews)) \<and>
            (nextPageToken pg = None \<longleftrightarrow> int (length allReviews) \<le> startIndexOf tok + pageSizeOf maxResults) \<and>
            (\<forall>t. nextPageToken pg = Some t \<longrightarrow>
               startIndexOf (Some (Parsed t)) = startIndexOf tok + pageSizeOf maxResults)) \<and>
         (\<exists>pages. followPages (Suc (length allReviews)) (DetailsOk sm) allReviews placeId maxResults
                     minRating None = Some pages \<and> concat pages = allReviews)"
proof (intro conjI)
  show "results (getReviews (DetailsOk sm) allReviews placeId maxResults minRating tok)
           = take (nat (pageSizeOf maxResults)) (drop (nat (startIndexOf tok)) allReviews)"
    using getReviews_page(1)[OF assms] by simp
  show "\<exists>pg. pagination (getReviews (DetailsOk sm) allReviews placeId maxResults minRating tok) = Some pg \<and>
            hasMoreReviews pg = (startIndexOf tok + pageSizeOf maxResults < int (length allReviews)) \<and>
            (nextPageToken pg = None \<longleftrightarrow> int (length allReviews) \<le> startIndexOf tok + pageSizeOf maxResults) \<and>
            (\<forall>t. nextPageToken pg = Some t \<longrightarrow>
               startIndexOf (Some (Parsed t)) = startIndexOf tok + pageSizeOf maxResults)"
    using getReviews_page(2)[OF assms] by simp
  have "startIndexOf None = 0" by (simp add: startIndexOf_def)
  then show "\<exists>pages. followPages (Suc (length allReviews)) (DetailsOk sm) allReviews placeId maxResults
                     minRating None = Some pages \<and> concat pages = allReviews"
    using followPages_from[OF assms, where tok=None and allReviews=allReviews and fuel="Suc (length allReviews)" and sm=sm and placeId=placeId and minRating=minRating]
    by simp
qed


theorem offset_pages_partition_the_list_witness:
  "results (getReviews (DetailsOk exampleSummary) exampleReviews ''place'' (Some 2) None None)
     = [exampleReview ''Ann'' ''2024-01-01T00:00:00.000Z'' 5,
        exampleReview ''Bob'' ''2024-01-02T00:00:00.000Z'' 4] \<and>
   (\<exists>pages. followPages (Suc (length exampleReviews)) (DetailsOk exampleSummary) exampleReviews
               ''place'' (Some 2) None None = Some pages \<and> concat pages = exampleReviews)"
proof -
  have h: "0 < pageSizeOf (Some 2)" by (simp add: pageSizeOf_def)
  note inst = offset_pages_partition_the_list[OF h, where sm=exampleSummary
      and allReviews=exampleReviews and placeId="''place''" and minRating=None and tok=None]
  have "take (nat (pageSizeOf (Some 2))) (drop (nat (startIndexOf None)) exampleReviews)
      = [exampleReview ''Ann'' ''2024-01-01T00:00:00.000Z'' 5,
        exampleReview ''Bob'' ''2024-01-02T00:00:00.000Z'' 4]"
    by (simp add: pageSizeOf_def startIndexOf_def exampleReviews_def)
  then show ?thesis using inst by simp
qed


section \<open>Chunked pagination: no review is emitted twice\<close>

lemma set_setAdd: "set (setAdd elems x) = insert x (set elems)"
  by (auto simp: setAdd_def)

lemma set_foldl_setAdd: "set (foldl setAdd acc xs) = set acc \<union> set xs"
  by (induction xs arbitrary: acc) (auto simp: set_setAdd)

lemma reviewIds_parse_independent:
  "reviewIds (parseChunkToken m pageToken) = reviewIds (parseChunkToken None pageToken)"
proof (cases pageToken)
  case None
  then show ?thesis by (simp add: parseChunkToken_def freshTokenData_def)
next
  case (Some tok)
  show ?thesis
  proof (cases tok)
    case Unparsable
    with Some show ?thesis by (simp add: parseChunkToken_def freshTokenData_def)
  next
    case (Parsed j)
    show ?thesis
      unfolding Some Parsed
      by (cases j)
         (simp_all add: parseChunkToken_def freshTokenData_def andThen_def split: outcome.splits)
  qed
qed

lemma collectUnique_invariant:
  "collectUnique eng n mr fetched u ids = (u', ids') \<Longrightarrow>
   \<exists>new. u' = u @ new \<and> set ids' = set ids \<union> (\<lambda>x. JStr (reviewKey x)) ` set new \<and>
         distinct (map reviewKey new) \<and> (\<forall>x\<in>set new. JStr (reviewKey x) \<notin> set ids) \<and>
         set new \<subseteq> set fetched"
proof (induction fetched arbitrary: u ids)
  case Nil
  then show ?case by simp
next
  case (Cons review rest)
  let ?k = "JStr (reviewKey review)"
  let ?below = "case mr of None \<Rightarrow> False | Some m \<Rightarrow> js_less eng (rating review) m"
  show ?case
  proof (cases "?k \<in> set ids \<or> ?below")
    case True
    then have "collectUnique eng n mr (review # rest) u ids = collectUnique eng n mr rest u ids"
      by (auto simp: Let_def)
    then have "collectUnique eng n mr rest u ids = (u', ids')" using Cons.prems by simp
    from Cons.IH[OF this] obtain new where
      "u' = u @ new \<and> set ids' = set ids \<union> (\<lambda>x. JStr (reviewKey x)) ` set new \<and>
         distinct (map reviewKey new) \<and> (\<forall>x\<in>set new. JStr (reviewKey x) \<notin> set ids) \<and>
         set new \<subseteq> set rest" ..
    then show ?thesis by (intro exI[of _ new]) auto
  next
    case False
    then have k: "?k \<notin> set ids" and nb: "\<not> ?below" by simp_all
    show ?thesis
    proof (cases "int (length (u @ [review])) \<ge> n")
      case True
      then have "collectUnique eng n mr (review # rest) u ids = (u @ [review], setAdd ids ?k)"
        using k nb by (simp add: Let_def)
      then have "u' = u @ [review]" "ids' = setAdd ids ?k" using Cons.prems by simp_all
      then show ?thesis using k
        by (intro exI[of _ "[review]"]) (simp add: set_setAdd)
    next
      case False
      then have "collectUnique eng n mr (review # rest) u ids
           = collectUnique eng n mr rest (u @ [review]) (setAdd ids ?k)"
        using k nb by (simp add: Let_def)
      then have "collectUnique eng n mr rest (u @ [review]) (setAdd ids ?k) = (u', ids')"
        using Cons.prems by simp
      from Cons.IH[OF this] obtain new where new:
        "u' = (u @ [review]) @ new"
        "set ids' = set (setAdd ids ?k) \<union> (\<lambda>x. JStr (reviewKey x)) ` set new"
        "distinct (map reviewKey new)"
        "\<forall>x\<in>set new. JStr (reviewKey x) \<notin> set (setAdd ids ?k)"
        "set new \<subseteq> set rest" by blast
      have ne: "\<forall>x\<in>set new. reviewKey x \<noteq> reviewKey review"
        using new(4) by (simp add: set_setAdd)
      have old: "\<forall>x\<in>set new. JStr (reviewKey x) \<notin> set ids"
        using new(4) by (simp add: set_setAdd)
      have d: "distinct (map reviewKey (review # new))" using new(3) ne by auto
      have s: "set ids' = set ids \<union> (\<lambda>x. JStr (reviewKey x)) ` set (review # new)"
        using new(2) by (simp add: set_setAdd)
      have "u' = u @ (review # new)" using new(1) by simp
      moreover have "\<forall>x\<in>set (review # new). JStr (reviewKey x) \<notin> set ids" using old k by simp
      moreover have "set (review # new) \<subseteq> set (review # rest)" using new(5) by auto
      ultimately show ?thesis using d s by blast
    qed
  qed
qed


lemma reviewIds_chunkToken:
  "reviewIds (parseChunkToken m (Some (Parsed (chunkToken eng c fm ids u mr)))) = foldl setAdd [] ids"
  by (cases mr) (simp_all add: parseChunkToken_def chunkToken_def andThen_def js_or_def)

lemma seenKeys_chunkToken: "seenKeys (Some (Parsed (chunkToken eng c fm ids u mr))) = set ids"
  by (simp add: seenKeys_def reviewIds_chunkToken set_foldl_setAdd)

lemma getReviewsChunked_cases:
  fixes eng d f mx mn tok
  defines "r \<equiv> getReviewsChunked eng d f mx mn tok"
  defines "td \<equiv> parseChunkToken mn tok"
  obtains (failed) "results r = []" "pagination r = None" "\<not> success r"
  | (page) sm "next" fetched u ids fm where
      "d = DetailsOk sm"
      "nextSortMethodsOf eng (fetchedMethods td) = Returned next"
      "f (hd next) = FetchOk fetched"
      "collectUnique eng (pageSizeOf mx) (minimumRating td) fetched [] (reviewIds td) = (u, ids)"
      "markFetched (fetchedMethods td) (hd next) = Returned fm"
      "success r" "results r = u"
      "pagination r =
         Some \<lparr>nextPageToken =
                 (if length next > 1 \<or> length fetched > length u
                  then Some (chunkToken eng (hd next) fm ids u (minimumRating td)) else None),
               hasMoreReviews = (length next > 1 \<or> length fetched > length u),
               currentPage = None, totalPages = None, pageSize = Some (pageSizeOf mx),
               totalReviews = Some (summaryTotalReviews sm)\<rparr>"
proof (cases d)
  case (DetailsFailed e)
  then have "results r = []" "pagination r = None" "\<not> success r"
    by (simp_all add: r_def getReviewsChunked_def failureResponse_def)
  then show ?thesis by (rule failed)
next
  case (DetailsOk sm)
  show ?thesis
  proof (cases "nextSortMethodsOf eng (fetchedMethods td)")
    case Threw
    then have "results r = []" "pagination r = None" "\<not> success r"
      using DetailsOk
      by (simp_all add: r_def td_def getReviewsChunked_def failureResponse_def caughtTypeError_def Let_def)
    then show ?thesis by (rule failed)
  next
    case (Returned "next")
    show ?thesis
    proof (cases "f (hd next)")
      case (FetchFailed e)
      then have "results r = []" "pagination r = None" "\<not> success r"
        using DetailsOk Returned
        by (simp_all add: r_def td_def getReviewsChunked_def failureResponse_def Let_def)
      then show ?thesis by (rule failed)
    next
      case (FetchOk fetched)
      obtain u ids where cu:
        "collectUnique eng (pageSizeOf mx) (minimumRating td) fetched [] (reviewIds td) = (u, ids)"
        by (cases "collectUnique eng (pageSizeOf mx) (minimumRating td) fetched [] (reviewIds td)")
      show ?thesis
      proof (cases "markFetched (fetchedMethods td) (hd next)")
        case Threw
        then have "results r = []" "pagination r = None" "\<not> success r"
          using DetailsOk Returned FetchOk cu
          by (simp_all add: r_def td_def getReviewsChunked_def failureResponse_def
              caughtTypeError_def Let_def)
        then show ?thesis by (rule failed)
      next
        case (Returned fm)
        note mf = this
        have "success r" "results r = u"
          "pagination r =
             Some \<lparr>nextPageToken =
                 (if length next > 1 \<or> length fetched > length u
                  then Some (chunkToken eng (hd next) fm ids u (minimumRating td)) else None),
               hasMoreReviews = (length next > 1 \<or> length fetched > length u),
               currentPage = None, totalPages = None, pageSize = Some (pageSizeOf mx),
               totalReviews = Some (summaryTotalReviews sm)\<rparr>"
          using DetailsOk \<open>nextSortMethodsOf eng (fetchedMethods td) = Returned next\<close> FetchOk cu mf
          by (simp_all add: r_def td_def getReviewsChunked_def Let_def)
        with DetailsOk \<open>nextSortMethodsOf eng (fetchedMethods td) = Returned next\<close> FetchOk cu mf
        show ?thesis by (rule page)
      qed
    qed
  qed
qed


lemma chunk_step:
  fixes eng d f mx mn tok
  defines "r \<equiv> getReviewsChunked eng d f mx mn tok"
  shows "\<forall>x\<in>set (results r). JStr (reviewKey x) \<notin> seenKeys tok"
    and "distinct (map reviewKey (results r))"
    and "\<forall>pg t. pagination r = Some pg \<longrightarrow> nextPageToken pg = Some t \<longrightarrow>
           seenKeys (Some (Parsed t)) = seenKeys tok \<union> (\<lambda>x. JStr (reviewKey x)) ` set (results r)"
proof -
  have "(\<forall>x\<in>set (results r). JStr (reviewKey x) \<notin> seenKeys tok) \<and>
        distinct (map reviewKey (results r)) \<and>
        (\<forall>pg t. pagination r = Some pg \<longrightarrow> nextPageToken pg = Some t \<longrightarrow>
           seenKeys (Some (Parsed t)) = seenKeys tok \<union> (\<lambda>x. JStr (reviewKey x)) ` set (results r))"
  proof (cases rule: getReviewsChunked_cases[of eng d f mx mn tok])
    case failed
    then show ?thesis by (simp add: r_def)
  next
    case (page sm "next" fetched u ids fm)
    from collectUnique_invariant[OF page(4)] obtain new where new:
      "u = [] @ new"
      "set ids = set (reviewIds (parseChunkToken mn tok)) \<union> (\<lambda>x. JStr (reviewKey x)) ` set new"
      "distinct (map reviewKey new)"
      "\<forall>x\<in>set new. JStr (reviewKey x) \<notin> set (reviewIds (parseChunkToken mn tok))"
      by blast
    have sk: "set (reviewIds (parseChunkToken mn tok)) = seenKeys tok"
      unfolding seenKeys_def using reviewIds_parse_independent[of mn tok] by simp
    have un: "u = new" using new(1) by simp
    have res: "results r = u" using page(7) by (simp add: r_def)
    have a: "\<forall>x\<in>set (results r). JStr (reviewKey x) \<notin> seenKeys tok"
      using new(4) sk un res by simp
    have b: "distinct (map reviewKey (results r))" using new(3) un res by simp
    have c: "\<forall>pg t. pagination r = Some pg \<longrightarrow> nextPageToken pg = Some t \<longrightarrow>
           seenKeys (Some (Parsed t)) = seenKeys tok \<union> (\<lambda>x. JStr (reviewKey x)) ` set (results r)"
    proof (intro allI impI)
      fix pg t
      assume pg: "pagination r = Some pg" and t: "nextPageToken pg = Some t"
      have "t = chunkToken eng (hd next) fm ids u (minimumRating (parseChunkToken mn tok))"
        using page(8) pg t by (auto simp: r_def split: if_splits)
      then have "seenKeys (Some (Parsed t)) = set ids" by (simp add: seenKeys_chunkToken)
      then show "seenKeys (Some (Parsed t))
                   = seenKeys tok \<union> (\<lambda>x. JStr (reviewKey x)) ` set (results r)"
        using new(2) sk un res by simp
    qed
    from a b c show ?thesis by blast
  qed
  then show "\<forall>x\<in>set (results r). JStr (reviewKey x) \<notin> seenKeys tok"
    and "distinct (map reviewKey (results r))"
    and "\<forall>pg t. pagination r = Some pg \<longrightarrow> nextPageToken pg = Some t \<longrightarrow>
           seenKeys (Some (Parsed t)) = seenKeys tok \<union> (\<lambda>x. JStr (reviewKey x)) ` set (results r)"
    by blast+
qed

lemma chunkedChain_fresh_keys:
  "distinct (map reviewKey (concat (map results (chunkedChain eng tok calls)))) \<and>
   (\<forall>x\<in>set (concat (map results (chunkedChain eng tok calls))). JStr (reviewKey x) \<notin> seenKeys tok)"
proof (induction calls arbitrary: tok)
  case Nil
  then show ?case by simp
next
  case (Cons c cs)
  let ?r = "getReviewsChunked eng (callDetails c) (callFetch c) (callMaxResults c) (callMinRating c) tok"
  note step = chunk_step[of eng "callDetails c" "callFetch c" "callMaxResults c" "callMinRating c" tok]
  show ?case
  proof (cases "\<exists>pg t. pagination ?r = Some pg \<and> nextPageToken pg = Some t")
    case False
    then have "chunkedChain eng tok (c # cs) = [?r]"
      by (auto simp: Let_def split: option.splits)
    then show ?thesis using step(1,2) by simp
  next
    case True
    then obtain pg t where pg: "pagination ?r = Some pg" "nextPageToken pg = Some t" by blast
    then have ch: "chunkedChain eng tok (c # cs) = ?r # chunkedChain eng (Some (Parsed t)) cs"
      by (simp add: Let_def)
    define rest where "rest = concat (map results (chunkedChain eng (Some (Parsed t)) cs))"
    define page where "page = results ?r"
    have sk: "seenKeys (Some (Parsed t)) = seenKeys tok \<union> (\<lambda>x. JStr (reviewKey x)) ` set page"
      using step(3) pg unfolding page_def by blast
    have ih: "distinct (map reviewKey rest)"
      "\<forall>x\<in>set rest. JStr (reviewKey x) \<notin> seenKeys (Some (Parsed t))"
      using Cons.IH[of "Some (Parsed t)"] unfolding rest_def by blast+
    have disj: "\<forall>x\<in>set rest. \<forall>y\<in>set page. reviewKey x \<noteq> reviewKey y"
      using ih(2) sk by blast
    have old: "\<forall>x\<in>set rest. JStr (reviewKey x) \<notin> seenKeys tok"
      using ih(2) sk by blast
    have p1: "\<forall>x\<in>set page. JStr (reviewKey x) \<notin> seenKeys tok" and p2: "distinct (map reviewKey page)"
      using step(1,2) unfolding page_def by blast+
    have ne: "\<And>a b. a \<in> set page \<Longrightarrow> b \<in> set rest \<Longrightarrow> reviewKey a \<noteq> reviewKey b"
      using disj by metis
    have "set (map reviewKey page) \<inter> set (map reviewKey rest) = {}"
    proof (rule ccontr)
      assume "set (map reviewKey page) \<inter> set (map reviewKey rest) \<noteq> {}"
      then obtain k where "k \<in> set (map reviewKey page)" "k \<in> set (map reviewKey rest)" by blast
      then obtain a b where "a \<in> set page" "reviewKey a = k" "b \<in> set rest" "reviewKey b = k"
        by (metis (no_types) image_iff set_map)
      then show False using ne by metis
    qed
    then have "distinct (map reviewKey (page @ rest))"
      using p2 ih(1) by simp
    moreover have "\<forall>x\<in>set (page @ rest). JStr (reviewKey x) \<notin> seenKeys tok"
      using p1 old by auto
    ultimately show ?thesis unfolding ch by (simp add: page_def rest_def)
  qed
qed

lemma distinct_keys_distinct_pairs:
  "distinct (map reviewKey xs) \<Longrightarrow> distinct (map (\<lambda>x. (author x, time x)) xs)"
proof (induction xs)
  case Nil
  then show ?case by simp
next
  case (Cons x xs)
  have "\<And>y. (author y, time y) = (author x, time x) \<Longrightarrow> reviewKey y = reviewKey x"
    by (simp add: reviewKey_def)
  then have "(author x, time x) \<notin> (\<lambda>x. (author x, time x)) ` set xs"
    using Cons.prems by (metis (no_types, lifting) distinct.simps(2) image_iff list.simps(9) set_map)
  then show ?case using Cons by simp
qed

text \<open>
  Claim C9. Along a chunked continuation chain, where every call resumes from the token
  the previous call emitted, no identity key is emitted twice: the keys of all pages of
  the chain are distinct (and so are the pairs of author and timestamp), every call
  skips the reviews whose key is among the keys of its incoming token, and the token a
  call emits carries the incoming keys together with the keys emitted on its page.
\<close>

theorem chunked_chain_never_repeats:
  "distinct (map reviewKey (concat (map results (chunkedChain eng pageToken calls)))) \<and>
   distinct (map (\<lambda>x. (author x, time x)) (concat (map results (chunkedChain eng pageToken calls)))) \<and>
   (\<forall>x\<in>set (concat (map results (chunkedChain eng pageToken calls))).
      JStr (reviewKey x) \<notin> seenKeys pageToken) \<and>
   (\<forall>pg t. pagination (getReviewsChunked eng d f mx mn pageToken) = Some pg \<longrightarrow>
      nextPageToken pg = Some t \<longrightarrow>
      seenKeys (Some (Parsed t))
        = seenKeys pageToken \<union>
          (\<lambda>x. JStr (reviewKey x)) ` set (results (getReviewsChunked eng d f mx mn pageToken)))"
  using chunkedChain_fresh_keys[of eng pageToken calls] chunk_step(3)[of eng d f mx mn pageToken]
    distinct_keys_distinct_pairs
  by blast

theorem chunked_chain_never_repeats_witness:
  "distinct (map reviewKey
      (concat (map results (chunkedChain exampleEngine None [exampleCall, exampleCall, exampleCall])))) \<and>
   concat (map results (chunkedChain exampleEngine None [exampleCall, exampleCall, exampleCall]))
     = exampleReviews \<and>
   seenKeys (Some (Parsed exampleChunkToken)) = {JStr annKey, JStr bobKey}"
proof -
  note inst = chunked_chain_never_repeats[of exampleEngine None
      "[exampleCall, exampleCall, exampleCall]" "DetailsOk exampleSummary" exampleFetch "Some 2" None]
  have pg: "pagination (getReviewsChunked exampleEngine (DetailsOk exampleSummary) exampleFetch
                (Some 2) None None)
      = Some \<lparr>nextPageToken = Some exampleChunkToken, hasMoreReviews = True, currentPage = None,
          totalPages = None, pageSize = Some 2, totalReviews = Some 20\<rparr>"
    by code_simp
  have tk: "nextPageToken \<lparr>nextPageToken = Some exampleChunkToken, hasMoreReviews = True,
          currentPage = None, totalPages = None, pageSize = Some 2, totalReviews = Some 20\<rparr>
      = Some exampleChunkToken" by simp
  have sk: "seenKeys (Some (Parsed exampleChunkToken))
      = seenKeys None \<union> (\<lambda>x. JStr (reviewKey x)) `
          set (results (getReviewsChunked exampleEngine (DetailsOk exampleSummary) exampleFetch
                (Some 2) None None))"
    using inst pg tk by blast
  have rs: "results (getReviewsChunked exampleEngine (DetailsOk exampleSummary) exampleFetch
                (Some 2) None None)
      = [exampleReview ''Ann'' ''2024-01-01T00:00:00.000Z'' 5,
         exampleReview ''Bob'' ''2024-01-02T00:00:00.000Z'' 4]"
    by code_simp
  have s0: "seenKeys None = {}"
    by (simp add: seenKeys_def parseChunkToken_def freshTokenData_def)
  have keys: "seenKeys (Some (Parsed exampleChunkToken)) = {JStr annKey, JStr bobKey}"
    unfolding sk rs s0 by (auto simp: reviewKey_def exampleReview_def annKey_def bobKey_def)
  have cc: "concat (map results (chunkedChain exampleEngine None [exampleCall, exampleCall, exampleCall]))
     = exampleReviews" by code_simp
  show ?thesis using inst keys cc by blast
qed


section \<open>Chunked pagination: the flag for more reviews\<close>








section \<open>The two kinds of page token\<close>

lemma startIndexOf_chunkToken:
  "startIndexOf (Some (Parsed (chunkToken eng c fm ids u mr))) = 0"
  by (cases mr) (simp_all add: startIndexOf_def chunkToken_def)

lemma getReviews_token_cong:
  "startIndexOf tok = startIndexOf tok' \<Longrightarrow>
   getReviews d allReviews placeId mx mn tok = getReviews d allReviews placeId mx mn tok'"
  by (cases d) (simp_all add: getReviews_def)

lemma parseChunkToken_offsetToken:
  "parseChunkToken mn (Some (Parsed (offsetToken e placeId n mOff))) = freshTokenData mOff"
  by (cases mOff)
     (simp_all add: parseChunkToken_def offsetToken_def andThen_def js_or_def freshTokenData_def)

lemma getReviewsChunked_parse_cong:
  "parseChunkToken mn tok = parseChunkToken mn' tok' \<Longrightarrow>
   getReviewsChunked eng d f mx mn tok = getReviewsChunked eng d f mx mn' tok'"
  by (cases d) (simp_all add: getReviewsChunked_def)

lemma getReviews_emits_offsetToken:
  assumes "pagination (getReviews d allReviews placeId mx mOff tok) = Some pg"
    and "nextPageToken pg = Some t"
  shows "t = offsetToken (startIndexOf tok + pageSizeOf mx) placeId (int (length allReviews)) mOff"
  using assms
  by (cases d) (auto simp: getReviews_def failureResponse_def Let_def split: if_splits)

lemma getReviewsChunked_emits_chunkToken:
  assumes "pagination (getReviewsChunked eng d f mx mn tok) = Some pg"
    and "nextPageToken pg = Some t"
  shows "\<exists>c fm ids u mr. t = chunkToken eng c fm ids u mr"
proof (cases rule: getReviewsChunked_cases[of eng d f mx mn tok])
  case failed
  then show ?thesis using assms by simp
next
  case (page sm "next" fetched u ids fm)
  have "t = chunkToken eng (hd next) fm ids u (minimumRating (parseChunkToken mn tok))"
    using page(8) assms by (auto split: if_splits)
  then show ?thesis by blast
qed

text \<open>
  Claim C7, as the code has it. The two kinds of token carry no discriminant and are told
  apart only by the fields they have. A token emitted by chunked mode has no
  \<open>startIndex\<close>, so standard mode serves the first page, as with no token. A token
  emitted by standard mode is not rejected by chunked mode: the call starts with no
  fetched methods and no seen keys, and takes its minimum rating from the token in place
  of the request's.
\<close>

theorem cursor_variants_share_no_discriminant:
  "(\<forall>pg t. pagination (getReviewsChunked eng d f mx mn tok) = Some pg \<longrightarrow>
      nextPageToken pg = Some t \<longrightarrow>
      getReviews d' allReviews placeId mx' mn' (Some (Parsed t))
        = getReviews d' allReviews placeId mx' mn' None) \<and>
   (\<forall>pg t. pagination (getReviews d allReviews placeId mx mOff tok) = Some pg \<longrightarrow>
      nextPageToken pg = Some t \<longrightarrow>
      getReviewsChunked eng d' f mx' mn' (Some (Parsed t))
        = getReviewsChunked eng d' f mx' mOff None)"
proof (intro conjI allI impI)
  fix pg t
  assume "pagination (getReviewsChunked eng d f mx mn tok) = Some pg" "nextPageToken pg = Some t"
  then obtain c fm ids u mr where "t = chunkToken eng c fm ids u mr"
    using getReviewsChunked_emits_chunkToken by blast
  moreover have "startIndexOf None = 0" by (simp add: startIndexOf_def)
  ultimately have "startIndexOf (Some (Parsed t)) = startIndexOf None"
    by (simp add: startIndexOf_chunkToken)
  then show "getReviews d' allReviews placeId mx' mn' (Some (Parsed t))
        = getReviews d' allReviews placeId mx' mn' None"
    by (rule getReviews_token_cong)
next
  fix pg t
  assume "pagination (getReviews d allReviews placeId mx mOff tok) = Some pg" "nextPageToken pg = Some t"
  then obtain e n where "t = offsetToken e placeId n mOff"
    using getReviews_emits_offsetToken by blast
  moreover have "parseChunkToken mOff None = freshTokenData mOff" by (simp add: parseChunkToken_def)
  ultimately have "parseChunkToken mn' (Some (Parsed t)) = parseChunkToken mOff None"
    by (simp add: parseChunkToken_offsetToken)
  then show "getReviewsChunked eng d' f mx' mn' (Some (Parsed t))
        = getReviewsChunked eng d' f mx' mOff None"
    by (rule getReviewsChunked_parse_cong)
qed

text \<open>
  A token emitted by standard mode for minimum rating 5, handed to chunked mode in a
  request without minimum rating, changes the page: the four-star review is filtered.
\<close>

theorem offset_token_accepted_by_chunked_mode_counterexample:
  "map_option nextPageToken
     (pagination (getReviews (DetailsOk exampleSummary) fiveStarReviews ''place'' (Some 2) (Some 5) None))
     = Some (Some exampleOffsetToken) \<and>
   results (getReviewsChunked exampleEngine (DetailsOk exampleSummary) exampleFetch (Some 2) None
              (Some (Parsed exampleOffsetToken)))
     = [exampleReview ''Ann'' ''2024-01-01T00:00:00.000Z'' 5] \<and>
   results (getReviewsChunked exampleEngine (DetailsOk exampleSummary) exampleFetch (Some 2) None None)
     = [exampleReview ''Ann'' ''2024-01-01T00:00:00.000Z'' 5,
        exampleReview ''Bob'' ''2024-01-02T00:00:00.000Z'' 4]"
  by code_simp

theorem cursor_variants_share_no_discriminant_witness:
  "getReviews (DetailsOk exampleSummary) exampleReviews ''place'' (Some 2) None
     (Some (Parsed exampleChunkToken))
     = getReviews (DetailsOk exampleSummary) exampleReviews ''place'' (Some 2) None None \<and>
   getReviewsChunked exampleEngine (DetailsOk exampleSummary) exampleFetch (Some 2) None
     (Some (Parsed exampleOffsetToken))
     = getReviewsChunked exampleEngine (DetailsOk exampleSummary) exampleFetch (Some 2) (Some 5) None"
proof -
  have c: "pagination (getReviewsChunked exampleEngine (DetailsOk exampleSummary) exampleFetch
                (Some 2) None None)
      = Some \<lparr>nextPageToken = Some exampleChunkToken, hasMoreReviews = True, currentPage = None,
          totalPages = None, pageSize = Some 2, totalReviews = Some 20\<rparr>"
    by code_simp
  have ct: "nextPageToken \<lparr>nextPageToken = Some exampleChunkToken, hasMoreReviews = True,
          currentPage = None, totalPages = None, pageSize = Some 2, totalReviews = Some 20\<rparr>
      = Some exampleChunkToken" by simp
  have o: "pagination (getReviews (DetailsOk exampleSummary) fiveStarReviews ''place'' (Some 2)
              (Some 5) None)
      = Some \<lparr>nextPageToken = Some exampleOffsetToken, hasMoreReviews = True,
          currentPage = Some 1, totalPages = Some 2, pageSize = Some 2, totalReviews = Some 3\<rparr>"
    by code_simp
  have ot: "nextPageToken \<lparr>nextPageToken = Some exampleOffsetToken, hasMoreReviews = True,
          currentPage = Some 1, totalPages = Some 2, pageSize = Some 2, totalReviews = Some 3\<rparr>
      = Some exampleOffsetToken" by simp
  note inst1 = cursor_variants_share_no_discriminant[where eng=exampleEngine
      and d="DetailsOk exampleSummary" and f=exampleFetch and mx="Some 2" and mn=None and tok=None
      and d'="DetailsOk exampleSummary" and allReviews=exampleReviews and placeId="''place''"
      and mx'="Some 2" and mn'=None]
  note inst2 = cursor_variants_share_no_discriminant[where eng=exampleEngine
      and d="DetailsOk exampleSummary" and f=exampleFetch and mx="Some 2" and mOff="Some 5" and tok=None
      and d'="DetailsOk exampleSummary" and allReviews=fiveStarReviews and placeId="''place''"
      and mx'="Some 2" and mn'=None]
  have a: "getReviews (DetailsOk exampleSummary) exampleReviews ''place'' (Some 2) None
     (Some (Parsed exampleChunkToken))
     = getReviews (DetailsOk exampleSummary) exampleReviews ''place'' (Some 2) None None"
    using inst1 c ct by blast
  have b: "getReviewsChunked exampleEngine (DetailsOk exampleSummary) exampleFetch (Some 2) None
     (Some (Parsed exampleOffsetToken))
     = getReviewsChunked exampleEngine (DetailsOk exampleSummary) exampleFetch (Some 2) (Some 5) None"
    using inst2 o ot by blast
  show ?thesis using a b by simp
qed

section \<open>Malformed page tokens\<close>

text \<open>
  Standard mode treats a token that does not parse, or whose \<open>startIndex\<close> is missing,
  not a number or negative, as no token.
\<close>

lemma getReviews_malformed_token:
  assumes "tok = Unparsable \<or>
           (\<exists>j. tok = Parsed j \<and> (\<forall>n. js_prop j ''startIndex'' = Returned (Some (JNum n)) \<longrightarrow> n < 0))"
  shows "getReviews d allReviews placeId mx mn (Some tok) = getReviews d allReviews placeId mx mn None"
proof -
  have "startIndexOf (Some tok) = 0"
    using assms
    by (auto simp: startIndexOf_def split: page_token.splits outcome.splits option.splits json.splits)
  then have "startIndexOf (Some tok) = startIndexOf None" by (simp add: startIndexOf_def)
  then show ?thesis by (rule getReviews_token_cong)
qed

text \<open>
  Chunked mode reads the fields of a parsed token without checking their types. A token
  without \<open>minimumRating\<close> drops the request's minimum rating, and a \<open>fetchedMethods\<close>
  that is a number has no \<open>includes\<close>: the type error is thrown after the token block
  and reaches the outer \<open>catch\<close>.
\<close>

lemma chunked_empty_object_token:
  "parseChunkToken mn (Some (Parsed (JObj []))) = freshTokenData None"
  by (simp add: parseChunkToken_def andThen_def js_or_def freshTokenData_def)

lemma chunked_numeric_fetchedMethods:
  assumes "n \<noteq> 0" and "f ''most_relevant'' = FetchOk fetched"
  shows "getReviewsChunked eng (DetailsOk sm) f mx mn
           (Some (Parsed (JObj [(''fetchedMethods'', JNum n)]))) = caughtTypeError eng"
  using assms
  by (simp add: getReviewsChunked_def parseChunkToken_def andThen_def js_or_def
      nextSortMethodsOf_def allSortMethods_def markFetched_def Let_def split: prod.splits)

text \<open>
  Claim C6 at the token \<open>{"fetchedMethods":5}\<close>: the chunked request does not start a
  fresh chain but fails with an \<open>UNKNOWN\<close> error, while the same request without a
  token succeeds.
\<close>

theorem chunked_request_fails_on_numeric_fetchedMethods:
  "getReviewsChunked exampleEngine (DetailsOk exampleSummary) exampleFetch (Some 2) None
     (Some (Parsed numericFetchedMethodsToken))
     = \<lparr>success = False, provider = ''google'', results = [],
        error = Some \<lparr>code = ''UNKNOWN'',
                       message = ''tokenData.fetchedMethods.includes is not a function''\<rparr>,
        summary = None, pagination = None\<rparr> \<and>
   success (getReviewsChunked exampleEngine (DetailsOk exampleSummary) exampleFetch (Some 2) None None) \<and>
   results (getReviewsChunked exampleEngine (DetailsOk exampleSummary) exampleFetch (Some 2) None None)
     = [exampleReview ''Ann'' ''2024-01-01T00:00:00.000Z'' 5,
        exampleReview ''Bob'' ''2024-01-02T00:00:00.000Z'' 4]"
  by code_simp


end
